theory Spec2Isabelle
  imports Main "HOL-Library.Sublist" "HOL-Library.AList" "HOL-Library.Product_Lexorder"
begin

section \<open>Strings and the photo filter\<close>

text \<open>
  Strings are lists of characters. \<open>str.lower()\<close> is modelled on ASCII: the letters
  \<open>A\<close> to \<open>Z\<close> are mapped to \<open>a\<close> to \<open>z\<close> and every other character is
  left as it is (Python's case mapping of code points beyond ASCII is not modelled).
\<close>

definition lower_char :: "char \<Rightarrow> char" where
  "lower_char c =
     (case map_of (zip ''ABCDEFGHIJKLMNOPQRSTUVWXYZ'' ''abcdefghijklmnopqrstuvwxyz'') c of
        None \<Rightarrow> c
      | Some d \<Rightarrow> d)"

definition lower :: "string \<Rightarrow> string" where
  "lower s = map lower_char s"

text \<open>\<open>s.endswith(suf)\<close> for one suffix, and for a tuple of suffixes.\<close>

definition endswith :: "string \<Rightarrow> string \<Rightarrow> bool" where
  "endswith s suf = (length suf \<le> length s \<and> drop (length s - length suf) s = suf)"

definition endswith_any :: "string \<Rightarrow> string list \<Rightarrow> bool" where
  "endswith_any s sufs = list_ex (endswith s) sufs"

text \<open>
  The test \<open>file.lower().endswith(extensions)\<close> that \<open>get_earliest_photo_date\<close>,
  \<open>get_files_info\<close> and \<open>copy_with_progress\<close> all apply, where \<open>extensions\<close> is
  the tuple \<open>tuple(ext.lower() for ext in extensions)\<close> each of them builds first.
\<close>

definition lower_extensions :: "string list \<Rightarrow> string list" where
  "lower_extensions extensions = map lower extensions"

definition selected :: "string list \<Rightarrow> string \<Rightarrow> bool" where
  "selected extensions file = endswith_any (lower file) extensions"

section \<open>Errors and printed output\<close>

text \<open>
  Python exceptions are values. \<open>FileNotFoundError\<close> carries what its message is built
  from: the three messages the program composes itself, or the operating system's
  "no such file".
\<close>

datatype message =
    Disk_not_found string "string list"
  | No_photo_directories "string list"
  | No_photos "string list"
  | No_such_file

datatype error =
    FileNotFoundError message
  | FileExistsError
  | NotADirectoryError
  | IsADirectoryError
  | SameFileError
  | KeyError string
  | IndexError
  | ValueError
  | TypeError
  | JSONDecodeError
  | Unmodelled

text \<open>
  What \<open>verify_copy\<close> and \<open>copy_with_progress\<close> print, one event per line of
  output, carrying the numbers and paths the line is formatted from. The progress bar
  and the informational lines of the other functions carry no result and are left out.
\<close>

datatype event =
    Verify_header
  | Verify_counts nat nat
  | Verify_sizes nat nat
  | Warn_count nat nat
  | Warn_size nat nat
  | Verify_passed
  | No_files_to_copy
  | Copy_error "string list" error

text \<open>A loop whose body may raise: the first exception ends it.\<close>

fun fold_err :: "('a \<Rightarrow> 's \<Rightarrow> error + 's) \<Rightarrow> 'a list \<Rightarrow> 's \<Rightarrow> error + 's" where
  "fold_err f [] s = Inr s"
| "fold_err f (x # xs) s = (case f x s of Inl e \<Rightarrow> Inl e | Inr s' \<Rightarrow> fold_err f xs s')"

section \<open>The file system\<close>

text \<open>
  A path is the list of its components; \<open>os.path.join(root, file)\<close> appends a
  component and \<open>os.path.basename\<close> is the last one. A regular file has a size in bytes
  and a modification time, kept as the naive local date and time
  \<open>datetime.fromtimestamp(os.path.getmtime(p))\<close> evaluates to: year, month, day, hour,
  minute, second, microsecond, compared lexicographically as Python compares
  \<open>datetime\<close> values. A directory lists its entries in the order \<open>os.scandir\<close>
  reports them. Symbolic links, permissions and special files are not modelled.
\<close>

type_synonym path = "string list"

type_synonym datetime = "nat \<times> nat \<times> nat \<times> nat \<times> nat \<times> nat \<times> nat"

datatype node = File nat datetime | Dir "(string \<times> node) list"

fun lookup :: "node \<Rightarrow> path \<Rightarrow> node option" where
  "lookup n [] = Some n"
| "lookup (File sz mt) (x # p) = None"
| "lookup (Dir es) (x # p) = (case map_of es x of None \<Rightarrow> None | Some c \<Rightarrow> lookup c p)"

fun is_dir_node :: "node \<Rightarrow> bool" where
  "is_dir_node (Dir es) = True"
| "is_dir_node (File sz mt) = False"

definition isfile :: "node \<Rightarrow> path \<Rightarrow> bool" where
  "isfile fs p = (case lookup fs p of Some (File sz mt) \<Rightarrow> True | _ \<Rightarrow> False)"

definition isdir :: "node \<Rightarrow> path \<Rightarrow> bool" where
  "isdir fs p = (case lookup fs p of Some (Dir es) \<Rightarrow> True | _ \<Rightarrow> False)"

definition basename :: "path \<Rightarrow> string" where
  "basename p = (if p = [] then [] else last p)"

text \<open>In a well-formed file system the names within a directory are distinct.\<close>

fun wellformed :: "node \<Rightarrow> bool" where
  "wellformed (File sz mt) = True"
| "wellformed (Dir es) = (distinct (map fst es) \<and> list_all (\<lambda>e. wellformed (snd e)) es)"

text \<open>
  \<open>os.walk(top)\<close>, top down: the triple of the directory itself (its path, the names
  of its subdirectories, the names of its other entries), then the walks of its
  subdirectories. A path that is not a directory yields nothing.
\<close>

fun walk :: "path \<Rightarrow> node \<Rightarrow> (path \<times> string list \<times> string list) list" where
  "walk tp (File sz mt) = []"
| "walk tp (Dir es) =
     (tp, map fst (filter (\<lambda>e. is_dir_node (snd e)) es),
          map fst (filter (\<lambda>e. \<not> is_dir_node (snd e)) es))
     # concat (map (\<lambda>e. walk (tp @ [fst e]) (snd e)) es)"

definition os_walk :: "node \<Rightarrow> path \<Rightarrow> (path \<times> string list \<times> string list) list" where
  "os_walk fs tp = (case lookup fs tp of None \<Rightarrow> [] | Some n \<Rightarrow> walk tp n)"

text \<open>
  The three nested loops that \<open>get_earliest_photo_date\<close>, \<open>get_files_info\<close> and
  \<open>copy_with_progress\<close> share: over the directories, over the triples of
  \<open>os.walk\<close>, over the file names that pass the filter. The result lists
  \<open>os.path.join(root, file)\<close> in the order the loop body sees them.
\<close>

definition photo_files :: "node \<Rightarrow> path list \<Rightarrow> string list \<Rightarrow> path list" where
  "photo_files fs dirs extensions =
     concat (map (\<lambda>directory.
       concat (map (\<lambda>(root, dirs, files).
         map (\<lambda>file. root @ [file]) (filter (selected extensions) files))
       (os_walk fs directory))) dirs)"

text \<open>
  \<open>os.path.getsize\<close> and \<open>os.path.getmtime\<close>. The size and time the operating system
  reports for a directory are not modelled; the loops only ask for the paths
  \<open>os.walk\<close> listed as files.
\<close>

definition getsize :: "node \<Rightarrow> path \<Rightarrow> error + nat" where
  "getsize fs p =
     (case lookup fs p of
        None \<Rightarrow> Inl (FileNotFoundError No_such_file)
      | Some (File sz mt) \<Rightarrow> Inr sz
      | Some (Dir es) \<Rightarrow> Inl Unmodelled)"

definition getmtime :: "node \<Rightarrow> path \<Rightarrow> error + datetime" where
  "getmtime fs p =
     (case lookup fs p of
        None \<Rightarrow> Inl (FileNotFoundError No_such_file)
      | Some (File sz mt) \<Rightarrow> Inr mt
      | Some (Dir es) \<Rightarrow> Inl Unmodelled)"

section \<open>Date derivation\<close>

definition digit :: "nat \<Rightarrow> char" where
  "digit n = ''0123456789'' ! (n mod 10)"

function str_nat :: "nat \<Rightarrow> string" where
  "str_nat n = (if n < 10 then [digit n] else str_nat (n div 10) @ [digit n])"
  by pat_completeness auto
termination
  by (relation "measure id") auto

definition zfill :: "nat \<Rightarrow> string \<Rightarrow> string" where
  "zfill w s = replicate (w - length s) (CHR ''0'') @ s"

text \<open>\<open>strftime("%Y%m%d")\<close>: the year on four digits, month and day on two.\<close>

fun strftime_Ymd :: "datetime \<Rightarrow> string" where
  "strftime_Ymd (year, month, day, rest) =
     zfill 4 (str_nat year) @ zfill 2 (str_nat month) @ zfill 2 (str_nat day)"

definition get_earliest_photo_date :: "node \<Rightarrow> path list \<Rightarrow> string list \<Rightarrow> error + string" where
  "get_earliest_photo_date fs photo_dirs extensions =
     (let extensions = lower_extensions extensions in
      case fold_err
             (\<lambda>file_path earliest_date.
                case getmtime fs file_path of
                  Inl e \<Rightarrow> Inl e
                | Inr file_date \<Rightarrow>
                    (case earliest_date of
                       None \<Rightarrow> Inr (Some file_date)
                     | Some earliest \<Rightarrow>
                         if file_date < earliest then Inr (Some file_date)
                         else Inr (Some earliest)))
             (photo_files fs photo_dirs extensions) None of
        Inl e \<Rightarrow> Inl e
      | Inr None \<Rightarrow> Inl (FileNotFoundError (No_photos extensions))
      | Inr (Some earliest) \<Rightarrow> Inr (strftime_Ymd earliest))"

section \<open>Counting and verification\<close>

definition get_files_info :: "node \<Rightarrow> path list \<Rightarrow> string list \<Rightarrow> error + nat \<times> nat" where
  "get_files_info fs directories extensions =
     (let extensions = lower_extensions extensions in
      fold_err
        (\<lambda>file_path (file_count, total_size).
           case getsize fs file_path of
             Inl e \<Rightarrow> Inl e
           | Inr sz \<Rightarrow> Inr (file_count + 1, total_size + sz))
        (photo_files fs directories extensions) (0, 0))"

definition verify_copy ::
  "node \<Rightarrow> path list \<Rightarrow> path \<Rightarrow> string list \<Rightarrow> error + bool \<times> event list" where
  "verify_copy fs source_dirs dest_dir extensions =
     (case get_files_info fs source_dirs extensions of
        Inl e \<Rightarrow> Inl e
      | Inr (src_count, src_size) \<Rightarrow>
          (case get_files_info fs [dest_dir] extensions of
             Inl e \<Rightarrow> Inl e
           | Inr (dst_count, dst_size) \<Rightarrow>
               (let out = [Verify_header, Verify_counts src_count dst_count,
                           Verify_sizes src_size dst_size] in
                if src_count \<noteq> dst_count then
                  Inr (False, out @ [Warn_count src_count dst_count])
                else if src_size \<noteq> dst_size then
                  Inr (False, out @ [Warn_size src_size dst_size])
                else Inr (True, out @ [Verify_passed]))))"

section \<open>Copying\<close>

text \<open>
  Opening a path for writing and storing a file there: the parent must be a
  directory and the path itself must not be one. A new name is added at the end of the
  parent's listing; an existing file is replaced where it stands.
\<close>

fun write_file :: "node \<Rightarrow> path \<Rightarrow> nat \<Rightarrow> datetime \<Rightarrow> error + node" where
  "write_file (File s m) [] sz mt = Inr (File sz mt)"
| "write_file (Dir es) [] sz mt = Inl IsADirectoryError"
| "write_file (File s m) (x # p) sz mt = Inl NotADirectoryError"
| "write_file (Dir es) (x # p) sz mt =
     (case map_of es x of
        None \<Rightarrow>
          if p = [] then Inr (Dir (es @ [(x, File sz mt)]))
          else Inl (FileNotFoundError No_such_file)
      | Some c \<Rightarrow>
          (case write_file c p sz mt of
             Inl e \<Rightarrow> Inl e
           | Inr c' \<Rightarrow> Inr (Dir (AList.update x c' es))))"

text \<open>
  \<open>shutil.copy2(src, dst)\<close>: into \<open>dst\<close> under the source's base name when \<open>dst\<close>
  is a directory, onto \<open>dst\<close> itself otherwise; the copy has the size and the
  modification time of the source.
\<close>

definition copy2 :: "node \<Rightarrow> path \<Rightarrow> path \<Rightarrow> error + node" where
  "copy2 fs src dst =
     (let dst = (if isdir fs dst then dst @ [basename src] else dst) in
      if src = dst \<and> lookup fs src \<noteq> None then Inl SameFileError
      else
        case lookup fs src of
          None \<Rightarrow> Inl (FileNotFoundError No_such_file)
        | Some (Dir es) \<Rightarrow> Inl IsADirectoryError
        | Some (File sz mt) \<Rightarrow> write_file fs dst sz mt)"

text \<open>The copy loop: an exception of one copy is printed and the loop goes on.\<close>

fun copy_loop :: "node \<Rightarrow> path \<Rightarrow> path list \<Rightarrow> node \<times> event list" where
  "copy_loop fs dest_dir [] = (fs, [])"
| "copy_loop fs dest_dir (file # files) =
     (case copy2 fs file dest_dir of
        Inl e \<Rightarrow>
          (let (fs', out) = copy_loop fs dest_dir files in (fs', Copy_error file e # out))
      | Inr fs1 \<Rightarrow> copy_loop fs1 dest_dir files)"

definition copy_with_progress ::
  "node \<Rightarrow> path list \<Rightarrow> path \<Rightarrow> string list \<Rightarrow> bool \<times> node \<times> event list" where
  "copy_with_progress fs source_dirs dest_dir extensions =
     (let extensions = lower_extensions extensions;
          all_files = photo_files fs source_dirs extensions in
      if all_files = [] then (False, fs, [No_files_to_copy])
      else (let (fs', out) = copy_loop fs dest_dir all_files in (True, fs', out)))"


section \<open>The destination\<close>

text \<open>
  \<open>os.makedirs(name, exist_ok=True)\<close>: every missing directory on the way is
  created; a directory that is already there is accepted; a regular file in the place
  of the last component raises \<open>FileExistsError\<close>, one in the place of an earlier
  component \<open>NotADirectoryError\<close>.
\<close>

fun new_dirs :: "path \<Rightarrow> node" where
  "new_dirs [] = Dir []"
| "new_dirs (x # p) = Dir [(x, new_dirs p)]"

fun makedirs :: "node \<Rightarrow> path \<Rightarrow> error + node" where
  "makedirs (Dir es) [] = Inr (Dir es)"
| "makedirs (File sz mt) [] = Inl FileExistsError"
| "makedirs (File sz mt) (x # p) = Inl NotADirectoryError"
| "makedirs (Dir es) (x # p) =
     (case map_of es x of
        None \<Rightarrow> Inr (Dir (es @ [(x, new_dirs p)]))
      | Some c \<Rightarrow>
          (case makedirs c p of
             Inl e \<Rightarrow> Inl e
           | Inr c' \<Rightarrow> Inr (Dir (AList.update x c' es))))"

text \<open>
  Each subfolder is a relative path, given by its components, and
  \<open>os.path.join(dest_path, folder)\<close> appends them to the destination.
\<close>

definition setup_destination :: "node \<Rightarrow> path \<Rightarrow> path list \<Rightarrow> error + node" where
  "setup_destination fs dest_path subfolders =
     (case makedirs fs dest_path of
        Inl e \<Rightarrow> Inl e
      | Inr fs1 \<Rightarrow> fold_err (\<lambda>folder fs'. makedirs fs' (dest_path @ folder)) subfolders fs1)"

section \<open>The settings file\<close>

text \<open>
  JSON values; an object is the list of its members in insertion order, as a Python
  \<open>dict\<close> keeps them, and a key is looked up with \<open>map_of\<close>. Numbers are integers
  here.
\<close>

datatype json =
    JNull
  | JBool bool
  | JNum int
  | JStr string
  | JArr "json list"
  | JObj "(string \<times> json) list"

definition DEFAULT_CONFIG :: "(string \<times> json) list" where
  "DEFAULT_CONFIG =
     [(''mount_patterns'', JArr [JStr ''/media/{user}/{label}'', JStr ''/run/media/{user}/{label}'']),
      (''source_patterns'', JArr [JStr ''DCIM/*'']),
      (''photo_extensions'', JArr [JStr ''.jpg'', JStr ''.jpeg'', JStr ''.cr2'', JStr ''.raw'']),
      (''destination_template'', JStr ''{date}-canon600d-{name}''),
      (''subfolders'', JArr [JStr ''selected'', JStr ''selected/exported''])]"

text \<open>
  What is stored at a path of the settings store: a directory, a file that
  \<open>json.load\<close> parses to a value, or a file it rejects. \<open>json.dump\<close> stores a file
  that parses back to the value written.
\<close>

datatype stored = Directory | Json_file json | Malformed_file

type_synonym store = "string \<Rightarrow> stored option"

text \<open>\<open>key in config\<close> and \<open>config[key] = value\<close> for a key that is a string.\<close>

fun py_in :: "string \<Rightarrow> json \<Rightarrow> error + bool" where
  "py_in key (JObj kvs) = Inr (key \<in> fst ` set kvs)"
| "py_in key (JArr xs) = Inr (JStr key \<in> set xs)"
| "py_in key (JStr s) = Inr (sublist key s)"
| "py_in key v = Inl TypeError"

fun py_setitem :: "json \<Rightarrow> string \<Rightarrow> json \<Rightarrow> error + json" where
  "py_setitem (JObj kvs) key v = Inr (JObj (AList.update key v kvs))"
| "py_setitem c key v = Inl TypeError"

definition load_config :: "store \<Rightarrow> string \<Rightarrow> error + json \<times> store" where
  "load_config st config_path =
     (case st config_path of
        None \<Rightarrow>
          Inr (JObj DEFAULT_CONFIG, st(config_path \<mapsto> Json_file (JObj DEFAULT_CONFIG)))
      | Some Directory \<Rightarrow> Inl IsADirectoryError
      | Some Malformed_file \<Rightarrow> Inl JSONDecodeError
      | Some (Json_file loaded) \<Rightarrow>
          (case fold_err
                  (\<lambda>(key, dflt) config.
                     case py_in key config of
                       Inl e \<Rightarrow> Inl e
                     | Inr present \<Rightarrow>
                         if \<not> present then py_setitem config key dflt else Inr config)
                  DEFAULT_CONFIG loaded of
             Inl e \<Rightarrow> Inl e
           | Inr config \<Rightarrow> Inr (config, st)))"

section \<open>Mount resolution\<close>

text \<open>
  \<open>pattern.format(user=user, label=label)\<close> on the fragment of the format language the
  templates use: literal text, the doubled braces \<open>{{\<close> and \<open>}}\<close>, and replacement
  fields that are a bare name. A name that is no keyword raises \<open>KeyError\<close>, an empty
  or numeric name \<open>IndexError\<close> (there is no positional argument), an unmatched brace
  \<open>ValueError\<close>. Conversions, format specifications, attribute and index access are
  outside the fragment.
\<close>

definition format_field :: "string \<Rightarrow> (string \<times> string) list \<Rightarrow> error + string" where
  "format_field name kwargs =
     (if list_ex (\<lambda>c. c \<in> set ''{!:.['') name then Inl Unmodelled
      else if list_all (\<lambda>c. c \<in> set ''0123456789'') name then Inl IndexError
      else case map_of kwargs name of None \<Rightarrow> Inl (KeyError name) | Some v \<Rightarrow> Inr v)"

function py_format :: "string \<Rightarrow> (string \<times> string) list \<Rightarrow> error + string" where
  "py_format [] kwargs = Inr []"
| "py_format (c # cs) kwargs =
     (if c = CHR ''{'' then
        (if cs \<noteq> [] \<and> hd cs = CHR ''{'' then
           (case py_format (tl cs) kwargs of Inl e \<Rightarrow> Inl e | Inr r \<Rightarrow> Inr (CHR ''{'' # r))
         else if dropWhile (\<lambda>d. d \<noteq> CHR ''}'') cs = [] then Inl ValueError
         else
           (case format_field (takeWhile (\<lambda>d. d \<noteq> CHR ''}'') cs) kwargs of
              Inl e \<Rightarrow> Inl e
            | Inr v \<Rightarrow>
                (case py_format (tl (dropWhile (\<lambda>d. d \<noteq> CHR ''}'') cs)) kwargs of
                   Inl e \<Rightarrow> Inl e
                 | Inr r \<Rightarrow> Inr (v @ r))))
      else if c = CHR ''}'' then
        (if cs \<noteq> [] \<and> hd cs = CHR ''}'' then
           (case py_format (tl cs) kwargs of Inl e \<Rightarrow> Inl e | Inr r \<Rightarrow> Inr (CHR ''}'' # r))
         else Inl ValueError)
      else
        (case py_format cs kwargs of Inl e \<Rightarrow> Inl e | Inr r \<Rightarrow> Inr (c # r)))"
  by pat_completeness auto
termination
proof (relation "measure (\<lambda>(s, kwargs). length s)")
  fix cs :: string
  have "length (tl (dropWhile (\<lambda>d. d \<noteq> CHR ''}'') cs)) \<le> length cs"
    using length_dropWhile_le [of "\<lambda>d. d \<noteq> CHR ''}''" cs] by simp
  then show "\<And>c kwargs. ((tl (dropWhile (\<lambda>d. d \<noteq> CHR ''}'') cs), kwargs), (c # cs, kwargs))
          \<in> measure (\<lambda>(s, kwargs). length s)"
    by simp
qed auto

text \<open>
  The typed view of the settings the stages read. Whether a path is an active mount
  point is the operating system's answer, a parameter of the search.
\<close>

record config =
  mount_patterns :: "string list"
  source_patterns :: "string list"
  photo_extensions :: "string list"
  destination_template :: string
  subfolders :: "string list"

fun find_mount_loop ::
  "(string \<Rightarrow> bool) \<Rightarrow> config \<Rightarrow> string \<Rightarrow> string \<Rightarrow> string list \<Rightarrow> error + string" where
  "find_mount_loop ismount config label user [] =
     Inl (FileNotFoundError (Disk_not_found label (mount_patterns config)))"
| "find_mount_loop ismount config label user (pattern # patterns) =
     (case py_format pattern [(''user'', user), (''label'', label)] of
        Inl e \<Rightarrow> Inl e
      | Inr mount_point \<Rightarrow>
          if ismount mount_point then Inr mount_point
          else find_mount_loop ismount config label user patterns)"

definition find_mount_point ::
  "(string \<Rightarrow> bool) \<Rightarrow> config \<Rightarrow> string \<Rightarrow> string \<Rightarrow> error + string" where
  "find_mount_point ismount config label user =
     find_mount_loop ismount config label user (mount_patterns config)"

section \<open>Source discovery\<close>

text \<open>\<open>os.path.join\<close> of two path strings.\<close>

definition os_path_join :: "string \<Rightarrow> string \<Rightarrow> string" where
  "os_path_join a b =
     (if b \<noteq> [] \<and> hd b = CHR ''/'' then b
      else if a = [] \<or> last a = CHR ''/'' then a @ b
      else a @ ''/'' @ b)"

text \<open>
  \<open>glob.glob\<close> and \<open>os.path.isdir\<close> are the library's and the operating system's
  answers, parameters of the search; the loop over the patterns and the loop over the
  matches are the program's.
\<close>

fun keep_directories :: "(string \<Rightarrow> bool) \<Rightarrow> string list \<Rightarrow> string list \<Rightarrow> string list" where
  "keep_directories is_directory [] photo_dirs = photo_dirs"
| "keep_directories is_directory (dir_path # matched_dirs) photo_dirs =
     keep_directories is_directory matched_dirs
       (if is_directory dir_path then photo_dirs @ [dir_path] else photo_dirs)"

fun scan_patterns ::
  "(string \<Rightarrow> string list) \<Rightarrow> (string \<Rightarrow> bool) \<Rightarrow> string \<Rightarrow> string list \<Rightarrow> string list
     \<Rightarrow> string list" where
  "scan_patterns glob is_directory mount_point [] photo_dirs = photo_dirs"
| "scan_patterns glob is_directory mount_point (pattern # patterns) photo_dirs =
     scan_patterns glob is_directory mount_point patterns
       (keep_directories is_directory (glob (os_path_join mount_point pattern)) photo_dirs)"

definition find_photo_directories ::
  "(string \<Rightarrow> string list) \<Rightarrow> (string \<Rightarrow> bool) \<Rightarrow> string \<Rightarrow> string list
     \<Rightarrow> error + string list" where
  "find_photo_directories glob is_directory mount_point patterns =
     (let photo_dirs = scan_patterns glob is_directory mount_point patterns [] in
      if photo_dirs = [] then Inl (FileNotFoundError (No_photo_directories patterns))
      else Inr photo_dirs)"

section \<open>Auxiliary notions\<close>

text \<open>
  The regular files below a node, as paths relative to it, in the order \<open>os.walk\<close>
  meets them; and the size of the file at a path (zero where there is no file), to
  state totals.
\<close>

fun files_in :: "node \<Rightarrow> path list" where
  "files_in (File sz mt) = []"
| "files_in (Dir es) =
     map (\<lambda>e. [fst e]) (filter (\<lambda>e. \<not> is_dir_node (snd e)) es)
     @ concat (map (\<lambda>e. map ((#) (fst e)) (files_in (snd e))) es)"

definition size_of :: "node \<Rightarrow> path \<Rightarrow> nat" where
  "size_of fs p = (case lookup fs p of Some (File sz mt) \<Rightarrow> sz | _ \<Rightarrow> 0)"

text \<open>File systems of the examples.\<close>

definition two_sided_fs :: node where
  "two_sided_fs =
     Dir [(''src'', Dir [(''a.jpg'', File 2 (2024, 1, 5, 10, 0, 0, 0)),
                         (''b.JPG'', File 3 (2024, 1, 2, 9, 30, 0, 0))]),
          (''dst'', Dir [(''a.jpg'', File 3 (2024, 1, 5, 10, 0, 0, 0))])]"

text \<open>
  The modification time of the file at a path, to state minima, and the body of the
  loop of \<open>get_earliest_photo_date\<close>.
\<close>

definition mtime_of :: "node \<Rightarrow> path \<Rightarrow> datetime" where
  "mtime_of fs p = (case lookup fs p of Some (File sz mt) \<Rightarrow> mt | _ \<Rightarrow> (0, 0, 0, 0, 0, 0, 0))"


definition earlier :: "node \<Rightarrow> path \<Rightarrow> datetime option \<Rightarrow> error + datetime option" where
  "earlier fs file_path earliest_date =
     (case getmtime fs file_path of
        Inl e \<Rightarrow> Inl e
      | Inr file_date \<Rightarrow>
          (case earliest_date of
             None \<Rightarrow> Inr (Some file_date)
           | Some earliest \<Rightarrow>
               if file_date < earliest then Inr (Some file_date)
               else Inr (Some earliest)))"

definition january_fs :: node where
  "january_fs =
     Dir [(''DCIM'', Dir [(''100CANON'', Dir [(''IMG_1.jpg'', File 10 (2024, 1, 5, 12, 0, 0, 0)),
                                              (''IMG_2.JPG'', File 20 (2024, 1, 2, 8, 15, 0, 0)),
                                              (''notes.txt'', File 1 (2023, 12, 31, 0, 0, 0, 0))]),
                          (''101CANON'', Dir [(''IMG_3.jpg'', File 30 (2024, 1, 9, 23, 59, 59, 0))])])]"

definition copy_fs :: node where
  "copy_fs =
     Dir [(''card'', Dir [(''a.jpg'', File 1 (2024, 3, 1, 0, 0, 0, 0)),
                          (''b.jpg'', File 2 (2024, 3, 2, 0, 0, 0, 0)),
                          (''c.jpg'', File 3 (2024, 3, 3, 0, 0, 0, 0))]),
          (''out'', Dir [(''b.jpg'', Dir [])])]"

definition empty_fs :: node where
  "empty_fs =
     Dir [(''card'', Dir [(''DCIM'', Dir []), (''readme.txt'', File 7 (2024, 3, 1, 0, 0, 0, 0))]),
          (''out'', Dir [(''selected'', Dir [(''exported'', Dir [])])])]"

definition setup_fs :: node where
  "setup_fs =
     Dir [(''home'', Dir [(''Photos'', Dir [(''20240102-canon600d-trip'', Dir [(''selected'', Dir [])])]),
                          (''notes'', File 5 (2024, 1, 1, 0, 0, 0, 0))])]"

definition setup_fs_done :: node where
  "setup_fs_done =
     Dir [(''home'', Dir [(''Photos'', Dir [(''20240102-canon600d-trip'',
                                             Dir [(''selected'', Dir [(''exported'', Dir [])])])]),
                          (''notes'', File 5 (2024, 1, 1, 0, 0, 0, 0))])]"

text \<open>
  What is at a path: nothing, a directory, or a file with its size and time. Writing a
  file changes this at one path only.
\<close>

definition kind_at :: "node \<Rightarrow> path \<Rightarrow> (nat \<times> datetime) option option" where
  "kind_at fs p =
     (case lookup fs p of
        None \<Rightarrow> None
      | Some (File sz mt) \<Rightarrow> Some (Some (sz, mt))
      | Some (Dir es) \<Rightarrow> Some None)"

definition collision_fs :: node where
  "collision_fs =
     Dir [(''card'', Dir [(''100CANON'', Dir [(''IMG_1.jpg'', File 10 (2024, 1, 5, 12, 0, 0, 0))]),
                          (''101CANON'', Dir [(''IMG_1.jpg'', File 20 (2024, 1, 9, 8, 0, 0, 0))])]),
          (''out'', Dir [])]"

definition collision_fs_copied :: node where
  "collision_fs_copied =
     Dir [(''card'', Dir [(''100CANON'', Dir [(''IMG_1.jpg'', File 10 (2024, 1, 5, 12, 0, 0, 0))]),
                          (''101CANON'', Dir [(''IMG_1.jpg'', File 20 (2024, 1, 9, 8, 0, 0, 0))])]),
          (''out'', Dir [(''IMG_1.jpg'', File 20 (2024, 1, 9, 8, 0, 0, 0))])]"

definition roundtrip_fs :: node where
  "roundtrip_fs =
     Dir [(''card'', Dir [(''DCIM'', Dir [(''100CANON'', Dir [(''IMG_1.jpg'', File 10 (2024, 1, 5, 12, 0, 0, 0)),
                                                              (''IMG_2.JPG'', File 20 (2024, 1, 2, 8, 15, 0, 0)),
                                                              (''notes.txt'', File 1 (2023, 12, 31, 0, 0, 0, 0))]),
                                          (''101CANON'', Dir [(''IMG_3.jpg'', File 30 (2024, 1, 9, 23, 59, 59, 0))])])]),
          (''trip'', Dir [(''selected'', Dir [(''exported'', Dir [])])])]"

definition roundtrip_fs_copied :: node where
  "roundtrip_fs_copied =
     Dir [(''card'', Dir [(''DCIM'', Dir [(''100CANON'', Dir [(''IMG_1.jpg'', File 10 (2024, 1, 5, 12, 0, 0, 0)),
                                                              (''IMG_2.JPG'', File 20 (2024, 1, 2, 8, 15, 0, 0)),
                                                              (''notes.txt'', File 1 (2023, 12, 31, 0, 0, 0, 0))]),
                                          (''101CANON'', Dir [(''IMG_3.jpg'', File 30 (2024, 1, 9, 23, 59, 59, 0))])])]),
          (''trip'', Dir [(''selected'', Dir [(''exported'', Dir [])]),
                          (''IMG_1.jpg'', File 10 (2024, 1, 5, 12, 0, 0, 0)),
                          (''IMG_2.JPG'', File 20 (2024, 1, 2, 8, 15, 0, 0)),
                          (''IMG_3.jpg'', File 30 (2024, 1, 9, 23, 59, 59, 0))])]"

definition nested_fs :: node where
  "nested_fs =
     Dir [(''card'', Dir [(''IMG_1.jpg'', File 10 (2024, 1, 5, 12, 0, 0, 0)), (''out'', Dir [])])]"

definition nested_fs_copied :: node where
  "nested_fs_copied =
     Dir [(''card'', Dir [(''IMG_1.jpg'', File 10 (2024, 1, 5, 12, 0, 0, 0)),
                          (''out'', Dir [(''IMG_1.jpg'', File 10 (2024, 1, 5, 12, 0, 0, 0))])])]"

text \<open>
  The built-in settings as the typed view, and the answers of \<open>glob.glob\<close> and
  \<open>os.path.isdir\<close> on a card with two photo directories and a stray file.
\<close>

definition default_config :: config where
  "default_config =
     \<lparr>mount_patterns = [''/media/{user}/{label}'', ''/run/media/{user}/{label}''],
      source_patterns = [''DCIM/*''],
      photo_extensions = [''.jpg'', ''.jpeg'', ''.cr2'', ''.raw''],
      destination_template = ''{date}-canon600d-{name}'',
      subfolders = [''selected'', ''selected/exported'']\<rparr>"

definition card_glob :: "string \<Rightarrow> string list" where
  "card_glob pattern =
     (if pattern = ''/media/alice/EOS_DIGITAL/DCIM/*''
      then [''/media/alice/EOS_DIGITAL/DCIM/100CANON'',
            ''/media/alice/EOS_DIGITAL/DCIM/readme.txt'',
            ''/media/alice/EOS_DIGITAL/DCIM/101CANON'']
      else [])"

definition card_isdir :: "string \<Rightarrow> bool" where
  "card_isdir p \<longleftrightarrow>
     p \<in> set [''/media/alice/EOS_DIGITAL'', ''/media/alice/EOS_DIGITAL/DCIM'',
              ''/media/alice/EOS_DIGITAL/DCIM/100CANON'', ''/media/alice/EOS_DIGITAL/DCIM/101CANON'']"

text \<open>
  The body of the loop of \<open>load_config\<close> over the default keys, and a settings file
  that sets two of the default keys and one key of its own.
\<close>

definition backfill :: "string \<times> json \<Rightarrow> json \<Rightarrow> error + json" where
  "backfill = (\<lambda>(key, dflt) config.
                     case py_in key config of
                       Inl e \<Rightarrow> Inl e
                     | Inr present \<Rightarrow>
                         if \<not> present then py_setitem config key dflt else Inr config)"

definition partial_settings :: "(string \<times> json) list" where
  "partial_settings =
     [(''subfolders'', JArr [JStr ''best'']),
      (''camera'', JStr ''600D''),
      (''photo_extensions'', JArr [JStr ''.cr2''])]"

section \<open>Properties of the filter\<close>

lemma endswith_iff_suffix: "endswith s suf \<longleftrightarrow> suffix suf s"
proof
  assume "endswith s suf"
  then have "s = take (length s - length suf) s @ suf"
    by (metis append_take_drop_id endswith_def)
  then show "suffix suf s"
    by (metis suffixI)
next
  assume "suffix suf s"
  then obtain pre where "s = pre @ suf"
    by (auto simp: suffix_def)
  then show "endswith s suf"
    by (simp add: endswith_def)
qed

lemma endswith_any_iff: "endswith_any s sufs \<longleftrightarrow> (\<exists>suf. suf \<in> set sufs \<and> suffix suf s)"
  by (auto simp: endswith_any_def list_ex_iff endswith_iff_suffix)

lemma selected_iff:
  "selected (lower_extensions extensions) file
     \<longleftrightarrow> (\<exists>ext. ext \<in> set extensions \<and> suffix (lower ext) (lower file))"
  by (auto simp: selected_def lower_extensions_def endswith_any_iff)

section \<open>Properties of the file system\<close>

lemma lookup_append:
  "lookup n (p @ q) = (case lookup n p of None \<Rightarrow> None | Some c \<Rightarrow> lookup c q)"
  by (induction n p rule: lookup.induct) (auto split: option.splits)

lemma wellformed_lookup: "wellformed n \<Longrightarrow> lookup n p = Some c \<Longrightarrow> wellformed c"
proof (induction n p rule: lookup.induct)
  case (3 es x p)
  then obtain d where d: "map_of es x = Some d" "lookup d p = Some c"
    by (auto split: option.splits)
  then have "(x, d) \<in> set es" by (simp add: map_of_SomeD)
  with 3 have "wellformed d" by (auto simp: list_all_iff)
  with 3 d show ?case by simp
qed auto

lemma files_in_nonempty: "q \<in> set (files_in n) \<Longrightarrow> q \<noteq> []"
  by (cases n) auto

lemma concat_map_concat:
  "concat (map g (concat xss)) = concat (map (\<lambda>xs. concat (map g xs)) xss)"
  by (induction xss) auto

lemma filter_last_Cons:
  "\<forall>q \<in> set xs. q \<noteq> [] \<Longrightarrow>
     filter (\<lambda>q. P (last q)) (map ((#) x) xs) = map ((#) x) (filter (\<lambda>q. P (last q)) xs)"
  by (induction xs) auto

lemma walk_files_in:
  "concat (map (\<lambda>(root, dirs, files). map (\<lambda>file. root @ [file]) (filter P files)) (walk tp n))
     = map ((@) tp) (filter (\<lambda>q. P (last q)) (files_in n))"
proof (induction tp n rule: walk.induct)
  case (1 tp sz mt)
  show ?case by simp
next
  case (2 tp es)
  have a: "map (\<lambda>file. tp @ [file]) (filter P (map fst (filter (\<lambda>e. \<not> is_dir_node (snd e)) es)))
      = map ((@) tp) (filter (\<lambda>q. P (last q)) (map (\<lambda>e. [fst e]) (filter (\<lambda>e. \<not> is_dir_node (snd e)) es)))"
    by (simp add: filter_map comp_def)
  have b: "concat (map (\<lambda>e. concat (map (\<lambda>(root, dirs, files). map (\<lambda>file. root @ [file]) (filter P files))
                 (walk (tp @ [fst e]) (snd e)))) es)
      = map ((@) tp) (filter (\<lambda>q. P (last q)) (concat (map (\<lambda>e. map ((#) (fst e)) (files_in (snd e))) es)))"
  proof -
    have "\<And>e. e \<in> set es \<Longrightarrow>
        concat (map (\<lambda>(root, dirs, files). map (\<lambda>file. root @ [file]) (filter P files))
                 (walk (tp @ [fst e]) (snd e)))
        = map ((@) tp) (filter (\<lambda>q. P (last q)) (map ((#) (fst e)) (files_in (snd e))))"
    proof -
      fix e assume e: "e \<in> set es"
      have "filter (\<lambda>q. P (last q)) (map ((#) (fst e)) (files_in (snd e)))
          = map ((#) (fst e)) (filter (\<lambda>q. P (last q)) (files_in (snd e)))"
        by (rule filter_last_Cons) (auto dest: files_in_nonempty)
      then show "concat (map (\<lambda>(root, dirs, files). map (\<lambda>file. root @ [file]) (filter P files))
                 (walk (tp @ [fst e]) (snd e)))
        = map ((@) tp) (filter (\<lambda>q. P (last q)) (map ((#) (fst e)) (files_in (snd e))))"
        using 2[OF e] by simp
    qed
    then have "map (\<lambda>e. concat (map (\<lambda>(root, dirs, files). map (\<lambda>file. root @ [file]) (filter P files))
                 (walk (tp @ [fst e]) (snd e)))) es
       = map (\<lambda>e. map ((@) tp) (filter (\<lambda>q. P (last q)) (map ((#) (fst e)) (files_in (snd e))))) es"
      by (intro map_cong) auto
    then have "concat (map (\<lambda>e. concat (map (\<lambda>(root, dirs, files). map (\<lambda>file. root @ [file]) (filter P files))
                 (walk (tp @ [fst e]) (snd e)))) es)
       = concat (map (\<lambda>e. map ((@) tp) (filter (\<lambda>q. P (last q)) (map ((#) (fst e)) (files_in (snd e))))) es)"
      by (rule arg_cong)
    also have "\<dots> = map ((@) tp) (filter (\<lambda>q. P (last q)) (concat (map (\<lambda>e. map ((#) (fst e)) (files_in (snd e))) es)))"
      by (simp add: map_concat filter_concat comp_def)
    finally show ?thesis .
  qed
  show ?case
    using a b by (simp add: concat_map_concat comp_def del: filter_map)
qed


lemma isfile_Cons:
  "isfile (Dir es) (x # p) = (case map_of es x of None \<Rightarrow> False | Some c \<Rightarrow> isfile c p)"
  by (simp add: isfile_def split: option.splits)

lemma isfile_Nil: "isfile n [] = (\<not> is_dir_node n)"
  by (cases n) (simp_all add: isfile_def)

lemma set_files_in: "wellformed n \<Longrightarrow> set (files_in n) = {q. q \<noteq> [] \<and> isfile n q}"
proof (induction n rule: files_in.induct)
  case (1 sz mt)
  show ?case by (auto simp: isfile_def neq_Nil_conv)
next
  case (2 es)
  then have d: "distinct (map fst es)" and w: "\<And>e. e \<in> set es \<Longrightarrow> wellformed (snd e)"
    by (auto simp: list_all_iff)
  have ih: "\<And>e. e \<in> set es \<Longrightarrow> set (files_in (snd e)) = {q. q \<noteq> [] \<and> isfile (snd e) q}"
    using 2 w by blast
  show ?case
  proof (intro set_eqI iffI)
    fix q assume "q \<in> set (files_in (Dir es))"
    then consider e where "e \<in> set es" "\<not> is_dir_node (snd e)" "q = [fst e]"
      | e q' where "e \<in> set es" "q' \<in> set (files_in (snd e))" "q = fst e # q'"
      by auto
    then show "q \<in> {q. q \<noteq> [] \<and> isfile (Dir es) q}"
    proof cases
      case 1
      then have "map_of es (fst e) = Some (snd e)" using d by simp
      with 1 show ?thesis by (simp add: isfile_Cons isfile_Nil)
    next
      case 2
      then have "map_of es (fst e) = Some (snd e)" using d by simp
      moreover have "isfile (snd e) q'" using 2 ih by auto
      ultimately show ?thesis using 2 by (simp add: isfile_Cons)
    qed
  next
    fix q assume "q \<in> {q. q \<noteq> [] \<and> isfile (Dir es) q}"
    then obtain x p where q: "q = x # p" and f: "isfile (Dir es) (x # p)"
      by (auto simp: neq_Nil_conv)
    then obtain c where c: "map_of es x = Some c" "isfile c p"
      by (auto simp: isfile_Cons split: option.splits)
    then have mem: "(x, c) \<in> set es" by (simp add: map_of_SomeD)
    show "q \<in> set (files_in (Dir es))"
    proof (cases "p = []")
      case True
      with c have "\<not> is_dir_node c" by (simp add: isfile_Nil)
      with mem True q show ?thesis by force
    next
      case False
      with c ih[OF mem] have "p \<in> set (files_in c)" by simp
      with mem q show ?thesis by force
    qed
  qed
qed

lemma distinct_children_files:
  "distinct (map fst es) \<Longrightarrow> (\<And>e. e \<in> set es \<Longrightarrow> distinct (f (snd e))) \<Longrightarrow>
     distinct (concat (map (\<lambda>e. map ((#) (fst e)) (f (snd e))) es))"
proof (induction es)
  case Nil
  show ?case by simp
next
  case (Cons e es)
  have "distinct (map ((#) (fst e)) (f (snd e)))"
    using Cons.prems(2)[of e] by (simp add: distinct_map)
  moreover have "distinct (concat (map (\<lambda>e. map ((#) (fst e)) (f (snd e))) es))"
    using Cons by simp
  moreover have "set (map ((#) (fst e)) (f (snd e)))
       \<inter> set (concat (map (\<lambda>e. map ((#) (fst e)) (f (snd e))) es)) = {}"
    using Cons.prems(1) by auto
  ultimately show ?case by simp
qed

lemma distinct_files_in: "wellformed n \<Longrightarrow> distinct (files_in n)"
proof (induction n rule: files_in.induct)
  case (1 sz mt)
  show ?case by simp
next
  case (2 es)
  then have d: "distinct (map fst es)" and w: "\<And>e. e \<in> set es \<Longrightarrow> wellformed (snd e)"
    by (auto simp: list_all_iff)
  have "distinct (map (\<lambda>e. [fst e]) (filter (\<lambda>e. \<not> is_dir_node (snd e)) es))"
    using d by (simp add: distinct_map inj_on_def distinct_map_filter)
  moreover have "distinct (concat (map (\<lambda>e. map ((#) (fst e)) (files_in (snd e))) es))"
    using d 2 w by (intro distinct_children_files) auto
  moreover have "set (map (\<lambda>e. [fst e]) (filter (\<lambda>e. \<not> is_dir_node (snd e)) es))
       \<inter> set (concat (map (\<lambda>e. map ((#) (fst e)) (files_in (snd e))) es)) = {}"
    by (auto dest: files_in_nonempty)
  ultimately show ?case by simp
qed


lemma isfile_append:
  "isfile fs (d @ q) = (case lookup fs d of None \<Rightarrow> False | Some n \<Rightarrow> isfile n q)"
  by (simp add: isfile_def lookup_append split: option.splits)

lemma photo_files_alt:
  "photo_files fs dirs extensions =
     concat (map (\<lambda>d. case lookup fs d of
                        None \<Rightarrow> []
                      | Some n \<Rightarrow> map ((@) d) (filter (\<lambda>q. selected extensions (last q)) (files_in n)))
             dirs)"
proof -
  have "\<And>d. concat (map (\<lambda>(root, dirs, files).
               map (\<lambda>file. root @ [file]) (filter (selected extensions) files)) (os_walk fs d))
         = (case lookup fs d of
              None \<Rightarrow> []
            | Some n \<Rightarrow> map ((@) d) (filter (\<lambda>q. selected extensions (last q)) (files_in n)))"
    by (simp add: os_walk_def walk_files_in split: option.splits)
  then show ?thesis
    by (simp add: photo_files_def)
qed

lemma in_photo_files:
  "p \<in> set (photo_files fs dirs extensions) \<longleftrightarrow>
     (\<exists>d n q. d \<in> set dirs \<and> lookup fs d = Some n \<and> q \<in> set (files_in n)
        \<and> selected extensions (last q) \<and> p = d @ q)"
proof
  assume "p \<in> set (photo_files fs dirs extensions)"
  then obtain d where d: "d \<in> set dirs"
    "p \<in> set (case lookup fs d of None \<Rightarrow> []
               | Some n \<Rightarrow> map ((@) d) (filter (\<lambda>q. selected extensions (last q)) (files_in n)))"
    by (auto simp: photo_files_alt)
  then obtain n where n: "lookup fs d = Some n"
    by (cases "lookup fs d") auto
  with d show "\<exists>d n q. d \<in> set dirs \<and> lookup fs d = Some n \<and> q \<in> set (files_in n)
        \<and> selected extensions (last q) \<and> p = d @ q"
    by auto
next
  assume "\<exists>d n q. d \<in> set dirs \<and> lookup fs d = Some n \<and> q \<in> set (files_in n)
        \<and> selected extensions (last q) \<and> p = d @ q"
  then show "p \<in> set (photo_files fs dirs extensions)"
    by (force simp: photo_files_alt)
qed

lemma photo_files_isfile:
  assumes "wellformed fs" and "p \<in> set (photo_files fs dirs extensions)"
  shows "isfile fs p"
proof -
  from assms(2) obtain d n q where d: "lookup fs d = Some n" "q \<in> set (files_in n)" "p = d @ q"
    unfolding in_photo_files by blast
  then have "wellformed n"
    using assms(1) wellformed_lookup by blast
  then have "isfile n q"
    using d(2) set_files_in by blast
  then show ?thesis
    using d by (simp add: isfile_append)
qed

lemma getsize_isfile: "isfile fs p \<Longrightarrow> getsize fs p = Inr (size_of fs p)"
  by (auto simp: isfile_def getsize_def size_of_def split: option.splits node.splits)

lemma fold_err_getsize:
  "\<forall>p \<in> set ps. isfile fs p \<Longrightarrow>
     fold_err (\<lambda>file_path (file_count, total_size).
                 case getsize fs file_path of
                   Inl e \<Rightarrow> Inl e
                 | Inr sz \<Rightarrow> Inr (file_count + 1, total_size + sz)) ps (c, t)
       = Inr (c + length ps, t + sum_list (map (size_of fs) ps))"
  by (induction ps arbitrary: c t) (simp_all add: getsize_isfile)

lemma get_files_info_eq:
  assumes "wellformed fs"
  shows "get_files_info fs dirs extensions =
           Inr (length (photo_files fs dirs (lower_extensions extensions)),
                sum_list (map (size_of fs) (photo_files fs dirs (lower_extensions extensions))))"
  using fold_err_getsize [of "photo_files fs dirs (lower_extensions extensions)" fs 0 0]
    photo_files_isfile [OF assms]
  by (simp add: get_files_info_def)

lemma verify_copy_cases:
  assumes "get_files_info fs source_dirs extensions = Inr (sc, ss)"
    and "get_files_info fs [dest_dir] extensions = Inr (dc, ds)"
  shows "verify_copy fs source_dirs dest_dir extensions =
           Inr (sc = dc \<and> ss = ds,
                [Verify_header, Verify_counts sc dc, Verify_sizes ss ds,
                 if sc \<noteq> dc then Warn_count sc dc
                 else if ss \<noteq> ds then Warn_size ss ds else Verify_passed])"
  using assms by (simp add: verify_copy_def)

lemma getmtime_isfile: "isfile fs p \<Longrightarrow> getmtime fs p = Inr (mtime_of fs p)"
  by (auto simp: isfile_def getmtime_def mtime_of_def split: option.splits node.splits)

lemma Min_insert_min:
  fixes e :: "'a :: linorder"
  assumes "finite S"
  shows "Min (insert (min m e) S) = Min (insert e (insert m S))"
  using assms by (cases "S = {}") (simp_all add: ac_simps)

lemma earlier_Some:
  "isfile fs p \<Longrightarrow> earlier fs p (Some e) = Inr (Some (min (mtime_of fs p) e))"
  by (auto simp: earlier_def getmtime_isfile min_def)

lemma earlier_None: "isfile fs p \<Longrightarrow> earlier fs p None = Inr (Some (mtime_of fs p))"
  by (simp add: earlier_def getmtime_isfile)

lemma fold_err_earlier:
  "\<forall>p \<in> set ps. isfile fs p \<Longrightarrow>
     fold_err (earlier fs) ps (Some e) = Inr (Some (Min (insert e (mtime_of fs ` set ps))))"
proof (induction ps arbitrary: e)
  case Nil
  show ?case by simp
next
  case (Cons p ps)
  have "fold_err (earlier fs) (p # ps) (Some e)
      = fold_err (earlier fs) ps (Some (min (mtime_of fs p) e))"
    using Cons.prems by (simp add: earlier_Some)
  also have "\<dots> = Inr (Some (Min (insert (min (mtime_of fs p) e) (mtime_of fs ` set ps))))"
    using Cons by simp
  also have "Min (insert (min (mtime_of fs p) e) (mtime_of fs ` set ps))
      = Min (insert e (mtime_of fs ` set (p # ps)))"
    using Min_insert_min [of "mtime_of fs ` set ps" "mtime_of fs p" e] by simp
  finally show ?case .
qed

lemma get_earliest_photo_date_alt:
  "get_earliest_photo_date fs photo_dirs extensions =
     (case fold_err (earlier fs) (photo_files fs photo_dirs (lower_extensions extensions)) None of
        Inl e \<Rightarrow> Inl e
      | Inr None \<Rightarrow> Inl (FileNotFoundError (No_photos (lower_extensions extensions)))
      | Inr (Some earliest) \<Rightarrow> Inr (strftime_Ymd earliest))"
proof -
  have "earlier fs = (\<lambda>file_path earliest_date.
                case getmtime fs file_path of
                  Inl e \<Rightarrow> Inl e
                | Inr file_date \<Rightarrow>
                    (case earliest_date of
                       None \<Rightarrow> Inr (Some file_date)
                     | Some earliest \<Rightarrow>
                         if file_date < earliest then Inr (Some file_date)
                         else Inr (Some earliest)))"
    by (intro ext) (simp add: earlier_def)
  then show ?thesis
    by (simp add: get_earliest_photo_date_def Let_def)
qed

lemma get_earliest_photo_date_eq:
  assumes "wellformed fs"
  shows "get_earliest_photo_date fs photo_dirs extensions =
           (if photo_files fs photo_dirs (lower_extensions extensions) = []
            then Inl (FileNotFoundError (No_photos (lower_extensions extensions)))
            else Inr (strftime_Ymd
                   (Min (mtime_of fs ` set (photo_files fs photo_dirs (lower_extensions extensions))))))"
proof (cases "photo_files fs photo_dirs (lower_extensions extensions)")
  case Nil
  then show ?thesis by (simp add: get_earliest_photo_date_alt)
next
  case (Cons p ps)
  then have f: "isfile fs p" "\<forall>q \<in> set ps. isfile fs q"
    using photo_files_isfile [OF assms, of _ photo_dirs "lower_extensions extensions"] by auto
  have "fold_err (earlier fs) (p # ps) None = Inr (Some (Min (mtime_of fs ` set (p # ps))))"
    using f fold_err_earlier [OF f(2), of "mtime_of fs p"] by (simp add: earlier_None)
  then show ?thesis
    using Cons by (simp add: get_earliest_photo_date_alt)
qed

lemma copy_loop_append:
  "copy_loop fs dest_dir (xs @ ys) =
     (let (fs1, out1) = copy_loop fs dest_dir xs;
          (fs2, out2) = copy_loop fs1 dest_dir ys
      in (fs2, out1 @ out2))"
  by (induction xs arbitrary: fs) (auto split: sum.splits prod.splits)

lemma copy_loop_single:
  "copy_loop fs dest_dir [file] =
     (case copy2 fs file dest_dir of Inl e \<Rightarrow> (fs, [Copy_error file e]) | Inr fs' \<Rightarrow> (fs', []))"
  by (simp split: sum.splits)

lemma files_in_isfile_iff:
  "wellformed n \<Longrightarrow> q \<in> set (files_in n) \<longleftrightarrow> q \<noteq> [] \<and> isfile n q"
  using set_files_in by blast

lemma in_photo_files_wellformed:
  assumes "wellformed fs"
  shows "p \<in> set (photo_files fs dirs extensions) \<longleftrightarrow>
     (\<exists>d q. d \<in> set dirs \<and> q \<noteq> [] \<and> isfile fs (d @ q) \<and> selected extensions (last q) \<and> p = d @ q)"
proof
  assume "p \<in> set (photo_files fs dirs extensions)"
  then obtain d n q where d: "d \<in> set dirs" "lookup fs d = Some n" "q \<in> set (files_in n)"
      "selected extensions (last q)" "p = d @ q"
    unfolding in_photo_files by blast
  then have "wellformed n" using assms wellformed_lookup by blast
  then have "q \<noteq> [] \<and> isfile n q" using d(3) files_in_isfile_iff by blast
  then show "\<exists>d q. d \<in> set dirs \<and> q \<noteq> [] \<and> isfile fs (d @ q) \<and> selected extensions (last q) \<and> p = d @ q"
    using d by (auto simp: isfile_append)
next
  assume "\<exists>d q. d \<in> set dirs \<and> q \<noteq> [] \<and> isfile fs (d @ q) \<and> selected extensions (last q) \<and> p = d @ q"
  then obtain d q where d: "d \<in> set dirs" "q \<noteq> []" "isfile fs (d @ q)" "selected extensions (last q)" "p = d @ q"
    by blast
  then obtain n where n: "lookup fs d = Some n" "isfile n q"
    by (auto simp: isfile_append split: option.splits)
  then have "wellformed n" using assms wellformed_lookup by blast
  then have "q \<in> set (files_in n)" using n d(2) files_in_isfile_iff by blast
  then show "p \<in> set (photo_files fs dirs extensions)"
    unfolding in_photo_files using d n by blast
qed

lemma photo_files_empty_iff:
  assumes "wellformed fs"
  shows "photo_files fs dirs extensions = [] \<longleftrightarrow>
     (\<forall>d \<in> set dirs. \<forall>q. q \<noteq> [] \<and> isfile fs (d @ q) \<longrightarrow> \<not> selected extensions (last q))"
proof -
  have "photo_files fs dirs extensions = [] \<longleftrightarrow> (\<forall>p. p \<notin> set (photo_files fs dirs extensions))"
    by (cases "photo_files fs dirs extensions") auto
  then show ?thesis
    unfolding in_photo_files_wellformed [OF assms] by blast
qed

section \<open>Properties of directory creation\<close>

lemma isdir_Nil: "isdir n [] = is_dir_node n"
  by (cases n) (simp_all add: isdir_def)

lemma isdir_Cons:
  "isdir (Dir es) (x # p) = (case map_of es x of None \<Rightarrow> False | Some c \<Rightarrow> isdir c p)"
  by (simp add: isdir_def split: option.splits)

lemma isdir_File: "isdir (File sz mt) p = False"
  by (cases p) (simp_all add: isdir_def)

lemma isdir_new_dirs: "isdir (new_dirs p) p"
  by (induction p) (simp_all add: isdir_Nil isdir_Cons)

lemma makedirs_isdir: "makedirs n p = Inr n' \<Longrightarrow> isdir n' p"
proof (induction n p arbitrary: n' rule: makedirs.induct)
  case (4 es x p)
  show ?case
  proof (cases "map_of es x")
    case None
    with 4 show ?thesis
      by (auto simp: isdir_Cons isdir_new_dirs map_add_def)
  next
    case (Some c)
    with 4 obtain c' where c': "makedirs c p = Inr c'" "n' = Dir (AList.update x c' es)"
      by (auto split: sum.splits)
    with 4 Some have "isdir c' p" by simp
    with c' show ?thesis
      by (simp add: isdir_Cons update_conv')
  qed
qed (auto simp: isdir_Nil)

lemma makedirs_existing: "isdir n p \<Longrightarrow> makedirs n p = Inr n"
proof (induction n p rule: makedirs.induct)
  case (4 es x p)
  then obtain c where c: "map_of es x = Some c" "isdir c p"
    by (auto simp: isdir_Cons split: option.splits)
  with 4 have "makedirs c p = Inr c" by simp
  with c show ?case
    by (simp add: update_triv)
qed (auto simp: isdir_File isdir_Nil)

lemma makedirs_keeps_dirs: "makedirs n p = Inr n' \<Longrightarrow> isdir n q \<Longrightarrow> isdir n' q"
proof (induction n p arbitrary: n' q rule: makedirs.induct)
  case (4 es x p)
  show ?case
  proof (cases q)
    case Nil
    with 4 show ?thesis
      by (auto simp: isdir_Nil split: option.splits sum.splits)
  next
    case (Cons y q')
    with 4 obtain d where d: "map_of es y = Some d" "isdir d q'"
      by (auto simp: isdir_Cons split: option.splits)
    show ?thesis
    proof (cases "map_of es x")
      case None
      with d have "y \<noteq> x" by auto
      with 4 None d Cons show ?thesis
        by (auto simp: isdir_Cons map_add_def)
    next
      case (Some c)
      with 4 obtain c' where c': "makedirs c p = Inr c'" "n' = Dir (AList.update x c' es)"
        by (auto split: sum.splits)
      show ?thesis
      proof (cases "y = x")
        case True
        with d Some have "isdir c q'" by simp
        with 4 Some c' have "isdir c' q'" by simp
        with c' True Cons show ?thesis
          by (simp add: isdir_Cons update_conv')
      next
        case False
        with c' d Cons show ?thesis
          by (simp add: isdir_Cons update_conv')
      qed
    qed
  qed
qed (auto simp: isdir_File)

lemma subfolders_created:
  "fold_err (\<lambda>folder fs'. makedirs fs' (d @ folder)) subs fs = Inr fs2 \<Longrightarrow>
     (isdir fs q \<longrightarrow> isdir fs2 q) \<and> (\<forall>folder \<in> set subs. isdir fs2 (d @ folder))"
proof (induction subs arbitrary: fs q)
  case Nil
  then show ?case by simp
next
  case (Cons s subs)
  then obtain fs1 where fs1: "makedirs fs (d @ s) = Inr fs1"
      "fold_err (\<lambda>folder fs'. makedirs fs' (d @ folder)) subs fs1 = Inr fs2"
    by (auto split: sum.splits)
  have a: "isdir fs1 (d @ s)"
    using fs1(1) by (rule makedirs_isdir)
  have b: "isdir fs q \<longrightarrow> isdir fs1 q"
    using fs1(1) makedirs_keeps_dirs by blast
  have c: "\<And>q. isdir fs1 q \<longrightarrow> isdir fs2 q"
    using Cons.IH [OF fs1(2)] by blast
  have e: "\<forall>folder \<in> set subs. isdir fs2 (d @ folder)"
    using Cons.IH [OF fs1(2)] by blast
  show ?case
    using a b c e by auto
qed

lemma subfolders_existing:
  "\<forall>folder \<in> set subs. isdir fs (d @ folder) \<Longrightarrow>
     fold_err (\<lambda>folder fs'. makedirs fs' (d @ folder)) subs fs = Inr fs"
  by (induction subs) (simp_all add: makedirs_existing)

lemma setup_destination_existing:
  "isdir fs d \<Longrightarrow> \<forall>folder \<in> set subs. isdir fs (d @ folder) \<Longrightarrow>
     setup_destination fs d subs = Inr fs"
  by (simp add: setup_destination_def makedirs_existing subfolders_existing)

lemma setup_destination_isdir:
  assumes "setup_destination fs d subs = Inr fs'"
  shows "isdir fs' d \<and> (\<forall>folder \<in> set subs. isdir fs' (d @ folder))"
proof -
  from assms obtain fs1 where fs1: "makedirs fs d = Inr fs1"
      "fold_err (\<lambda>folder fs'. makedirs fs' (d @ folder)) subs fs1 = Inr fs'"
    by (auto simp: setup_destination_def split: sum.splits)
  have "isdir fs1 d" using fs1(1) by (rule makedirs_isdir)
  then show ?thesis
    using subfolders_created [OF fs1(2), of d] by blast
qed

section \<open>Properties of copying\<close>

lemma kind_at_Nil_File: "kind_at (File sz mt) [] = Some (Some (sz, mt))"
  by (simp add: kind_at_def)

lemma kind_at_Nil_Dir: "kind_at (Dir es) [] = Some None"
  by (simp add: kind_at_def)

lemma kind_at_File_Cons: "kind_at (File sz mt) (x # p) = None"
  by (simp add: kind_at_def)

lemma kind_at_Dir_Cons:
  "kind_at (Dir es) (x # p) = (case map_of es x of None \<Rightarrow> None | Some c \<Rightarrow> kind_at c p)"
  by (simp add: kind_at_def split: option.splits)

lemmas kind_at_simps = kind_at_Nil_File kind_at_Nil_Dir kind_at_File_Cons kind_at_Dir_Cons

lemma isfile_kind_at: "isfile fs p \<longleftrightarrow> (\<exists>a. kind_at fs p = Some (Some a))"
  by (auto simp: isfile_def kind_at_def split: option.splits node.splits)

lemma isdir_kind_at: "isdir fs p \<longleftrightarrow> kind_at fs p = Some None"
  by (auto simp: isdir_def kind_at_def split: option.splits node.splits)

lemma size_of_kind_at:
  "size_of fs p = (case kind_at fs p of Some (Some a) \<Rightarrow> fst a | _ \<Rightarrow> 0)"
  by (auto simp: size_of_def kind_at_def split: option.splits node.splits)

lemma write_file_kind_at:
  "write_file n p sz mt = Inr n' \<Longrightarrow>
     kind_at n' q = (if q = p then Some (Some (sz, mt)) else kind_at n q)"
proof (induction n p sz mt arbitrary: n' q rule: write_file.induct)
  case (1 s m sz mt)
  then show ?case by (cases q) (auto simp: kind_at_simps)
next
  case (2 es sz mt)
  then show ?case by simp
next
  case (3 s m x p sz mt)
  then show ?case by simp
next
  case (4 es x p sz mt)
  show ?case
  proof (cases "map_of es x")
    case None
    with 4 have n': "p = []" "n' = Dir (es @ [(x, File sz mt)])"
      by (auto split: if_splits)
    show ?thesis
    proof (cases q)
      case Nil
      with n' show ?thesis by (simp add: kind_at_simps)
    next
      case (Cons y q')
      show ?thesis
      proof (cases "y = x")
        case True
        with None n' Cons show ?thesis
          by (cases q') (simp_all add: kind_at_simps map_add_def)
      next
        case False
        with None n' Cons show ?thesis
          by (simp add: kind_at_simps map_add_def split: option.splits)
      qed
    qed
  next
    case (Some c)
    with 4 obtain c' where c': "write_file c p sz mt = Inr c'" "n' = Dir (AList.update x c' es)"
      by (auto split: sum.splits)
    have ih: "\<And>q. kind_at c' q = (if q = p then Some (Some (sz, mt)) else kind_at c q)"
      using 4 Some c' by simp
    show ?thesis
    proof (cases q)
      case Nil
      with c' show ?thesis by (simp add: kind_at_simps)
    next
      case (Cons y q')
      with c' Some ih show ?thesis
        by (simp add: kind_at_simps update_conv')
    qed
  qed
qed

lemma wellformed_write_file:
  "write_file n p sz mt = Inr n' \<Longrightarrow> wellformed n \<Longrightarrow> wellformed n'"
proof (induction n p sz mt arbitrary: n' rule: write_file.induct)
  case (4 es x p sz mt)
  show ?case
  proof (cases "map_of es x")
    case None
    with 4 have n': "n' = Dir (es @ [(x, File sz mt)])"
      by (auto split: if_splits)
    from None have "x \<notin> fst ` set es"
      by (simp add: map_of_eq_None_iff)
    with 4 n' show ?thesis by (auto simp: list_all_iff)
  next
    case (Some c)
    with 4 obtain c' where c': "write_file c p sz mt = Inr c'" "n' = Dir (AList.update x c' es)"
      by (auto split: sum.splits)
    from Some have "(x, c) \<in> set es" by (simp add: map_of_SomeD)
    with 4 have "wellformed c" by (auto simp: list_all_iff)
    with 4 Some c' have w: "wellformed c'" by simp
    have "set (AList.update x c' es) \<subseteq> insert (x, c') (set es)"
      by (induction es) auto
    with w 4 have "list_all (\<lambda>e. wellformed (snd e)) (AList.update x c' es)"
      by (auto simp: list_all_iff)
    with 4 c' show ?thesis
      by (simp add: distinct_update)
  qed
qed auto

lemma copy2_into_directory:
  assumes "isdir fs D" and "f \<noteq> []" and "copy2 fs f D = Inr fs'"
  shows "\<exists>a. kind_at fs f = Some (Some a)
           \<and> (\<forall>q. kind_at fs' q = (if q = D @ [last f] then Some (Some a) else kind_at fs q))
           \<and> (wellformed fs \<longrightarrow> wellformed fs')"
proof (cases "lookup fs f")
  case None
  with assms show ?thesis
    by (simp add: copy2_def Let_def)
next
  case (Some n)
  show ?thesis
  proof (cases n)
    case (Dir es)
    with Some assms show ?thesis
      by (simp add: copy2_def Let_def split: if_splits)
  next
    case (File sz mt)
    with Some assms have w: "write_file fs (D @ [last f]) sz mt = Inr fs'"
      by (simp add: copy2_def Let_def basename_def split: if_splits)
    have "kind_at fs f = Some (Some (sz, mt))"
      using Some File by (simp add: kind_at_def)
    moreover have "\<forall>q. kind_at fs' q = (if q = D @ [last f] then Some (Some (sz, mt)) else kind_at fs q)"
      using write_file_kind_at [OF w] by blast
    moreover have "wellformed fs \<longrightarrow> wellformed fs'"
      using wellformed_write_file [OF w] by blast
    ultimately show ?thesis by blast
  qed
qed

lemma copy_loop_kind_at:
  assumes "isdir fs D"
    and "\<forall>f \<in> set files. f \<noteq> [] \<and> isfile fs f"
    and "\<forall>f \<in> set files. \<forall>g \<in> set files. f \<noteq> D @ [last g]"
    and "distinct (map last files)"
    and "copy_loop fs D files = (fs', out)"
    and "\<forall>file e. Copy_error file e \<notin> set out"
  shows "(\<forall>f \<in> set files. kind_at fs' (D @ [last f]) = kind_at fs f)
       \<and> (\<forall>q. q \<notin> (\<lambda>f. D @ [last f]) ` set files \<longrightarrow> kind_at fs' q = kind_at fs q)
       \<and> (wellformed fs \<longrightarrow> wellformed fs')"
  using assms
proof (induction files arbitrary: fs out)
  case Nil
  then show ?case by simp
next
  case (Cons f rest)
  have fne: "f \<noteq> []" using Cons.prems(2) by simp
  obtain fs1 where c: "copy2 fs f D = Inr fs1"
  proof (cases "copy2 fs f D")
    case (Inl e)
    then have "Copy_error f e \<in> set out"
      using Cons.prems(5) by (auto split: prod.splits)
    then show ?thesis using Cons.prems(6) by blast
  next
    case (Inr fs1)
    then show ?thesis using that by blast
  qed
  then have loop: "copy_loop fs1 D rest = (fs', out)"
    using Cons.prems(5) by simp
  obtain a where a: "kind_at fs f = Some (Some a)"
      and k1: "\<And>q. kind_at fs1 q = (if q = D @ [last f] then Some (Some a) else kind_at fs q)"
      and w1: "wellformed fs \<longrightarrow> wellformed fs1"
    using copy2_into_directory [OF Cons.prems(1) fne c] by blast
  have d1: "isdir fs1 D"
    using Cons.prems(1) k1 [of D] by (simp add: isdir_kind_at)
  have same: "\<And>g. g \<in> set (f # rest) \<Longrightarrow> kind_at fs1 g = kind_at fs g"
    using Cons.prems(3) k1 by auto
  have f1: "\<forall>g \<in> set rest. g \<noteq> [] \<and> isfile fs1 g"
    using Cons.prems(2) same by (simp add: isfile_kind_at)
  have t1: "\<forall>g \<in> set rest. \<forall>h \<in> set rest. g \<noteq> D @ [last h]"
    using Cons.prems(3) by simp
  have n1: "distinct (map last rest)"
    using Cons.prems(4) by simp
  note ih = Cons.IH [OF d1 f1 t1 n1 loop Cons.prems(6)]
  have notin: "D @ [last f] \<notin> (\<lambda>g. D @ [last g]) ` set rest"
    using Cons.prems(4) by auto
  have "kind_at fs' (D @ [last f]) = kind_at fs f"
    using ih notin k1 [of "D @ [last f]"] a by simp
  moreover have "\<forall>g \<in> set rest. kind_at fs' (D @ [last g]) = kind_at fs g"
    using ih same by simp
  moreover have "\<forall>q. q \<notin> (\<lambda>f. D @ [last f]) ` set (f # rest) \<longrightarrow> kind_at fs' q = kind_at fs q"
    using ih k1 by simp
  moreover have "wellformed fs \<longrightarrow> wellformed fs'"
    using ih w1 by blast
  ultimately show ?case by simp
qed

lemma same_set_totals:
  fixes f g :: "'a \<Rightarrow> nat"
  assumes "distinct xs" and "distinct ys" and "set xs = set ys" and "\<forall>x \<in> set xs. f x = g x"
  shows "length xs = length ys \<and> sum_list (map f xs) = sum_list (map g ys)"
proof -
  have "length xs = length ys"
    using assms(1-3) distinct_card [of xs] distinct_card [of ys] by simp
  moreover have "sum_list (map f xs) = sum f (set xs)"
    using assms(1) by (rule sum_list_distinct_conv_sum_set)
  moreover have "sum_list (map g ys) = sum g (set ys)"
    using assms(2) by (rule sum_list_distinct_conv_sum_set)
  moreover have "sum f (set xs) = sum g (set ys)"
    using assms(3,4) by (intro sum.cong) auto
  ultimately show ?thesis by simp
qed

lemma photo_files_Cons:
  "photo_files fs (d # ds) extensions = photo_files fs [d] extensions @ photo_files fs ds extensions"
  by (simp add: photo_files_def)

lemma distinct_photo_files_single:
  assumes "wellformed fs"
  shows "distinct (photo_files fs [d] extensions)"
proof (cases "lookup fs d")
  case None
  then show ?thesis by (simp add: photo_files_alt)
next
  case (Some n)
  then have "wellformed n" using assms wellformed_lookup by blast
  then have "distinct (filter (\<lambda>q. selected extensions (last q)) (files_in n))"
    using distinct_files_in by simp
  then show ?thesis
    using Some by (simp add: photo_files_alt distinct_map inj_on_def)
qed

lemma photo_files_single_iff:
  assumes "wellformed fs"
  shows "p \<in> set (photo_files fs [d] extensions) \<longleftrightarrow>
     (\<exists>q. q \<noteq> [] \<and> isfile fs (d @ q) \<and> selected extensions (last q) \<and> p = d @ q)"
  using in_photo_files_wellformed [OF assms, of p "[d]" extensions] by simp

lemma size_of_cong: "kind_at fs' p = kind_at fs q \<Longrightarrow> size_of fs' p = size_of fs q"
  by (simp add: size_of_kind_at)

lemma isfile_cong: "kind_at fs' p = kind_at fs q \<Longrightarrow> isfile fs' p = isfile fs q"
  by (simp add: isfile_kind_at)

lemma totals_unchanged:
  assumes "wellformed fs" and "wellformed fs'"
    and "\<forall>d \<in> set dirs. \<forall>q. q \<noteq> [] \<longrightarrow> kind_at fs' (d @ q) = kind_at fs (d @ q)"
  shows "length (photo_files fs' dirs extensions) = length (photo_files fs dirs extensions)
       \<and> sum_list (map (size_of fs') (photo_files fs' dirs extensions))
           = sum_list (map (size_of fs) (photo_files fs dirs extensions))"
  using assms(3)
proof (induction dirs)
  case Nil
  show ?case by (simp add: photo_files_def)
next
  case (Cons d ds)
  have k: "\<And>q. q \<noteq> [] \<Longrightarrow> kind_at fs' (d @ q) = kind_at fs (d @ q)"
    using Cons.prems by simp
  have i: "\<And>q. q \<noteq> [] \<Longrightarrow> isfile fs' (d @ q) = isfile fs (d @ q)"
    using isfile_cong [OF k] .
  have s: "set (photo_files fs' [d] extensions) = set (photo_files fs [d] extensions)"
  proof (intro set_eqI iffI)
    fix p assume "p \<in> set (photo_files fs' [d] extensions)"
    then obtain q where "q \<noteq> []" "isfile fs' (d @ q)" "selected extensions (last q)" "p = d @ q"
      unfolding photo_files_single_iff [OF assms(2)] by blast
    then show "p \<in> set (photo_files fs [d] extensions)"
      unfolding photo_files_single_iff [OF assms(1)] using i by blast
  next
    fix p assume "p \<in> set (photo_files fs [d] extensions)"
    then obtain q where "q \<noteq> []" "isfile fs (d @ q)" "selected extensions (last q)" "p = d @ q"
      unfolding photo_files_single_iff [OF assms(1)] by blast
    then show "p \<in> set (photo_files fs' [d] extensions)"
      unfolding photo_files_single_iff [OF assms(2)] using i by blast
  qed
  have z: "\<forall>p \<in> set (photo_files fs' [d] extensions). size_of fs' p = size_of fs p"
  proof
    fix p assume "p \<in> set (photo_files fs' [d] extensions)"
    then obtain q where "q \<noteq> []" "p = d @ q"
      unfolding photo_files_single_iff [OF assms(2)] by blast
    then show "size_of fs' p = size_of fs p"
      using size_of_cong [OF k] by simp
  qed
  have one: "length (photo_files fs' [d] extensions) = length (photo_files fs [d] extensions)
       \<and> sum_list (map (size_of fs') (photo_files fs' [d] extensions))
           = sum_list (map (size_of fs) (photo_files fs [d] extensions))"
    using same_set_totals [OF distinct_photo_files_single [OF assms(2)]
        distinct_photo_files_single [OF assms(1)] s z] .
  have rest: "length (photo_files fs' ds extensions) = length (photo_files fs ds extensions)
       \<and> sum_list (map (size_of fs') (photo_files fs' ds extensions))
           = sum_list (map (size_of fs) (photo_files fs ds extensions))"
    using Cons by simp
  show ?case
    using one rest by (simp add: photo_files_Cons [of _ d ds])
qed

lemma totals_of_copies:
  assumes "wellformed fs'"
    and "distinct (map last files)"
    and "\<forall>f \<in> set files. selected extensions (last f) \<and> isfile fs f
            \<and> kind_at fs' (D @ [last f]) = kind_at fs f"
    and "\<forall>q. q \<noteq> [] \<and> D @ q \<notin> (\<lambda>f. D @ [last f]) ` set files
            \<longrightarrow> \<not> (isfile fs' (D @ q) \<and> selected extensions (last q))"
  shows "length (photo_files fs' [D] extensions) = length files
       \<and> sum_list (map (size_of fs') (photo_files fs' [D] extensions))
           = sum_list (map (size_of fs) files)"
proof -
  let ?t = "\<lambda>f. D @ [last f]"
  have dt: "distinct (map ?t files)"
    using assms(2) by (simp add: distinct_map inj_on_def)
  have s: "set (photo_files fs' [D] extensions) = set (map ?t files)"
  proof (intro set_eqI iffI)
    fix p assume "p \<in> set (photo_files fs' [D] extensions)"
    then obtain q where q: "q \<noteq> []" "isfile fs' (D @ q)" "selected extensions (last q)" "p = D @ q"
      unfolding photo_files_single_iff [OF assms(1)] by blast
    then have "D @ q \<in> ?t ` set files"
      using assms(4) by blast
    then show "p \<in> set (map ?t files)"
      using q by simp
  next
    fix p assume "p \<in> set (map ?t files)"
    then obtain f where f: "f \<in> set files" "p = D @ [last f]"
      by auto
    then have "kind_at fs' (D @ [last f]) = kind_at fs f" "isfile fs f" "selected extensions (last f)"
      using assms(3) by blast+
    then have "isfile fs' (D @ [last f])" "selected extensions (last [last f])"
      using isfile_cong [of fs' "D @ [last f]" fs f] by simp_all
    then have "\<exists>q. q \<noteq> [] \<and> isfile fs' (D @ q) \<and> selected extensions (last q) \<and> p = D @ q"
      using f by blast
    then show "p \<in> set (photo_files fs' [D] extensions)"
      unfolding photo_files_single_iff [OF assms(1)] .
  qed
  have c: "length (photo_files fs' [D] extensions) = length (map ?t files)
       \<and> sum_list (map (size_of fs') (photo_files fs' [D] extensions))
           = sum_list (map (size_of fs') (map ?t files))"
    by (rule same_set_totals [OF distinct_photo_files_single [OF assms(1)] dt s]) simp
  have "\<And>f. f \<in> set files \<Longrightarrow> size_of fs' (D @ [last f]) = size_of fs f"
    using assms(3) size_of_cong by blast
  then have m: "map (size_of fs') (map ?t files) = map (size_of fs) files"
    by simp
  show ?thesis
    using c by (simp only: m length_map)
qed

lemma append_eq_snoc_prefix: "d @ q = D @ [x] \<Longrightarrow> q \<noteq> [] \<Longrightarrow> prefix d D"
proof -
  assume a: "d @ q = D @ [x]" and n: "q \<noteq> []"
  then have "d @ butlast q @ [last q] = D @ [x]" by simp
  then have "d @ butlast q = D" by (metis append_assoc append1_eq_conv)
  then show "prefix d D" by (metis prefixI)
qed

lemma photo_files_facts:
  assumes "wellformed fs" and "f \<in> set (photo_files fs dirs extensions)"
  shows "f \<noteq> [] \<and> isfile fs f \<and> selected extensions (last f)
       \<and> (\<exists>d q. d \<in> set dirs \<and> q \<noteq> [] \<and> f = d @ q)"
proof -
  obtain d q where "d \<in> set dirs" "q \<noteq> []" "isfile fs (d @ q)" "selected extensions (last q)" "f = d @ q"
    using assms(2) unfolding in_photo_files_wellformed [OF assms(1)] by blast
  then show ?thesis by auto
qed

lemma copy_into_source_fails_verification:
  "wellformed nested_fs
   \<and> isdir nested_fs [''card'', ''out'']
   \<and> os_walk nested_fs [''card'', ''out''] = [([''card'', ''out''], [], [])]
   \<and> copy_with_progress nested_fs [[''card'']] [''card'', ''out''] [''.jpg''] = (True, nested_fs_copied, [])
   \<and> verify_copy nested_fs_copied [[''card'']] [''card'', ''out''] [''.jpg'']
       = Inr (False, [Verify_header, Verify_counts 2 1, Verify_sizes 20 10, Warn_count 2 1])"
  by code_simp

section \<open>Properties of discovery, mount resolution and settings\<close>

lemma keep_directories_eq:
  "keep_directories is_directory matched_dirs photo_dirs
     = photo_dirs @ filter is_directory matched_dirs"
  by (induction matched_dirs arbitrary: photo_dirs) simp_all

lemma scan_patterns_eq:
  "scan_patterns glob is_directory mount_point patterns photo_dirs
     = photo_dirs @ concat (map (\<lambda>pattern. filter is_directory (glob (os_path_join mount_point pattern)))
                             patterns)"
  by (induction patterns arbitrary: photo_dirs) (simp_all add: keep_directories_eq)

lemma find_mount_loop_result:
  assumes "\<forall>pattern \<in> set patterns. \<exists>s. py_format pattern [(''user'', user), (''label'', label)] = Inr s"
  shows "find_mount_loop ismount config label user patterns =
     (case List.find ismount
             (map (\<lambda>pattern. projr (py_format pattern [(''user'', user), (''label'', label)])) patterns) of
        None \<Rightarrow> Inl (FileNotFoundError (Disk_not_found label (mount_patterns config)))
      | Some mount_point \<Rightarrow> Inr mount_point)"
  using assms by (induction patterns) auto

lemma find_mount_point_first_match:
  assumes "\<forall>pattern \<in> set (mount_patterns config).
             \<exists>s. py_format pattern [(''user'', user), (''label'', label)] = Inr s"
  shows "find_mount_point ismount config label user =
     (case List.find ismount
             (map (\<lambda>pattern. projr (py_format pattern [(''user'', user), (''label'', label)]))
                  (mount_patterns config)) of
        None \<Rightarrow> Inl (FileNotFoundError (Disk_not_found label (mount_patterns config)))
      | Some mount_point \<Rightarrow> Inr mount_point)"
  unfolding find_mount_point_def using assms by (rule find_mount_loop_result)

lemma find_mount_point_example:
  "find_mount_point (\<lambda>mount_point. mount_point = ''/run/media/alice/EOS_DIGITAL'') default_config
       ''EOS_DIGITAL'' ''alice'' = Inr ''/run/media/alice/EOS_DIGITAL''
   \<and> find_mount_point (\<lambda>mount_point. mount_point \<in> set [''/run/media/alice/EOS_DIGITAL'', ''/media/alice/EOS_DIGITAL''])
       default_config ''EOS_DIGITAL'' ''alice'' = Inr ''/media/alice/EOS_DIGITAL''
   \<and> find_mount_point (\<lambda>mount_point. True)
       (default_config\<lparr>mount_patterns := [''/mnt/{name}'']\<rparr>) ''EOS_DIGITAL'' ''alice'' = Inl (KeyError ''name'')"
  by code_simp

lemma load_config_alt:
  "load_config st config_path =
     (case st config_path of
        None \<Rightarrow>
          Inr (JObj DEFAULT_CONFIG, st(config_path \<mapsto> Json_file (JObj DEFAULT_CONFIG)))
      | Some Directory \<Rightarrow> Inl IsADirectoryError
      | Some Malformed_file \<Rightarrow> Inl JSONDecodeError
      | Some (Json_file loaded) \<Rightarrow>
          (case fold_err backfill DEFAULT_CONFIG loaded of
             Inl e \<Rightarrow> Inl e
           | Inr config \<Rightarrow> Inr (config, st)))"
  unfolding load_config_def backfill_def by (rule refl)

lemma update_absent: "k \<notin> fst ` set kvs \<Longrightarrow> AList.update k v kvs = kvs @ [(k, v)]"
  by (induction kvs) auto

lemma backfill_object:
  "backfill (k, v) (JObj kvs) =
     Inr (JObj (if k \<in> fst ` set kvs then kvs else kvs @ [(k, v)]))"
  by (simp add: backfill_def update_absent)

lemma fold_err_backfill:
  "distinct (map fst ds) \<Longrightarrow>
     fold_err backfill ds (JObj kvs) = Inr (JObj (kvs @ filter (\<lambda>e. fst e \<notin> fst ` set kvs) ds))"
proof (induction ds arbitrary: kvs)
  case Nil
  show ?case by simp
next
  case (Cons d ds)
  obtain k v where d: "d = (k, v)" by (cases d)
  have k: "k \<notin> fst ` set ds" and dd: "distinct (map fst ds)"
    using Cons.prems d by auto
  show ?case
  proof (cases "k \<in> fst ` set kvs")
    case True
    then show ?thesis
      using Cons.IH [OF dd, of kvs] d by (simp add: backfill_object)
  next
    case False
    have "filter (\<lambda>e. fst e \<notin> fst ` set (kvs @ [(k, v)])) ds = filter (\<lambda>e. fst e \<notin> fst ` set kvs) ds"
      using k by (intro filter_cong) auto
    then show ?thesis
      using Cons.IH [OF dd, of "kvs @ [(k, v)]"] d False by (simp add: backfill_object)
  qed
qed

lemma map_of_filter_absent:
  "key \<notin> K \<Longrightarrow> map_of (filter (\<lambda>e. fst e \<notin> K) ds) key = map_of ds key"
  by (induction ds) auto

lemma distinct_DEFAULT_CONFIG: "distinct (map fst DEFAULT_CONFIG)"
  by (simp add: DEFAULT_CONFIG_def)

lemma load_config_raises:
  "load_config [''config.json'' \<mapsto> Malformed_file] ''config.json'' = Inl JSONDecodeError
   \<and> load_config [''config.json'' \<mapsto> Json_file (JArr [])] ''config.json'' = Inl TypeError
   \<and> load_config [''config.json'' \<mapsto> Json_file (JNum 3)] ''config.json'' = Inl TypeError
   \<and> load_config [''config.json'' \<mapsto> Directory] ''config.json'' = Inl IsADirectoryError"
  by (simp add: load_config_def DEFAULT_CONFIG_def)

lemma find_photo_directories_example_eval:
  "os_path_join ''/media/alice/EOS_DIGITAL'' ''DCIM/*'' = ''/media/alice/EOS_DIGITAL/DCIM/*''
   \<and> find_photo_directories card_glob card_isdir ''/media/alice/EOS_DIGITAL'' [''DCIM/*'']
       = Inr [''/media/alice/EOS_DIGITAL/DCIM/100CANON'', ''/media/alice/EOS_DIGITAL/DCIM/101CANON'']
   \<and> find_photo_directories card_glob card_isdir ''/media/alice/EOS_DIGITAL'' [''MISC/*'', ''DCIM/readme.txt'']
       = Inl (FileNotFoundError (No_photo_directories [''MISC/*'', ''DCIM/readme.txt'']))"
  by code_simp

section \<open>The claims\<close>

text \<open>
  C10. The files that date derivation, counting and copying select are those whose
  lower-cased name ends with one of the lower-cased extensions: a suffix test on the
  whole name. So the entry \<open>jpg\<close>, with no dot, selects \<open>xjpg\<close>, and a file named
  \<open>.jpg\<close> is selected by the entry \<open>.jpg\<close>.
\<close>

theorem selection_is_suffix_match:
  "(selected (lower_extensions extensions) file
      \<longleftrightarrow> (\<exists>ext. ext \<in> set extensions \<and> suffix (lower ext) (lower file)))
   \<and> (p \<in> set (photo_files fs dirs (lower_extensions extensions))
      \<longleftrightarrow> (\<exists>d n q. d \<in> set dirs \<and> lookup fs d = Some n \<and> q \<in> set (files_in n)
            \<and> (\<exists>ext. ext \<in> set extensions \<and> suffix (lower ext) (lower (last q)))
            \<and> p = d @ q))
   \<and> selected (lower_extensions [''jpg'']) ''xjpg''
   \<and> selected (lower_extensions [''.jpg'']) ''.jpg''"
proof (intro conjI)
  show "selected (lower_extensions extensions) file
      \<longleftrightarrow> (\<exists>ext. ext \<in> set extensions \<and> suffix (lower ext) (lower file))"
    by (rule selected_iff)
  show "p \<in> set (photo_files fs dirs (lower_extensions extensions))
      \<longleftrightarrow> (\<exists>d n q. d \<in> set dirs \<and> lookup fs d = Some n \<and> q \<in> set (files_in n)
            \<and> (\<exists>ext. ext \<in> set extensions \<and> suffix (lower ext) (lower (last q)))
            \<and> p = d @ q)"
    by (simp only: in_photo_files selected_iff)
  show "selected (lower_extensions [''jpg'']) ''xjpg''"
    by code_simp
  show "selected (lower_extensions [''.jpg'']) ''.jpg''"
    by code_simp
qed

text \<open>
  C2, as the code has it. On a well-formed file system \<open>verify_copy\<close> counts both
  sides without raising and returns true exactly when the two counts are equal and the
  two byte totals are equal. Otherwise it returns false after one warning: the count
  warning when the counts differ, and the size warning only when the counts are equal
  and the totals differ.
\<close>

theorem verify_copy_result:
  assumes "wellformed fs"
  shows "\<exists>sc ss dc ds.
           get_files_info fs source_dirs extensions = Inr (sc, ss)
         \<and> get_files_info fs [dest_dir] extensions = Inr (dc, ds)
         \<and> verify_copy fs source_dirs dest_dir extensions =
             Inr (sc = dc \<and> ss = ds,
                  [Verify_header, Verify_counts sc dc, Verify_sizes ss ds,
                   if sc \<noteq> dc then Warn_count sc dc
                   else if ss \<noteq> ds then Warn_size ss ds else Verify_passed])"
proof -
  obtain sc ss where s: "get_files_info fs source_dirs extensions = Inr (sc, ss)"
    using get_files_info_eq [OF assms] by blast
  obtain dc ds where d: "get_files_info fs [dest_dir] extensions = Inr (dc, ds)"
    using get_files_info_eq [OF assms] by blast
  show ?thesis
    using s d verify_copy_cases [OF s d] by blast
qed

theorem verify_copy_result_witness:
  "wellformed two_sided_fs
   \<and> (\<exists>sc ss dc ds.
           get_files_info two_sided_fs [[''src'']] [''.jpg''] = Inr (sc, ss)
         \<and> get_files_info two_sided_fs [[''dst'']] [''.jpg''] = Inr (dc, ds)
         \<and> verify_copy two_sided_fs [[''src'']] [''dst''] [''.jpg''] =
             Inr (sc = dc \<and> ss = ds,
                  [Verify_header, Verify_counts sc dc, Verify_sizes ss ds,
                   if sc \<noteq> dc then Warn_count sc dc
                   else if ss \<noteq> ds then Warn_size ss ds else Verify_passed]))"
proof -
  have w: "wellformed two_sided_fs"
    by code_simp
  show ?thesis
    using w verify_copy_result [OF w, of "[[''src'']]" "[''.jpg'']" "[''dst'']"] by simp
qed

text \<open>
  C2 as stated fails where both the counts and the totals differ: the source holds two
  photos of 5 bytes in all, the destination one of 3 bytes, and only the count warning
  is printed; the sizes are never compared.
\<close>

theorem verify_copy_size_warning_skipped:
  "get_files_info two_sided_fs [[''src'']] [''.jpg''] = Inr (2, 5)
   \<and> get_files_info two_sided_fs [[''dst'']] [''.jpg''] = Inr (1, 3)
   \<and> verify_copy two_sided_fs [[''src'']] [''dst''] [''.jpg''] =
       Inr (False, [Verify_header, Verify_counts 2 1, Verify_sizes 5 3, Warn_count 2 1])"
  by code_simp

text \<open>
  C9. On a well-formed file system where no file below the source directories or the
  destination passes the filter (entirely empty directories included),
  \<open>get_files_info\<close> yields count 0 and size 0 for both sides and \<open>verify_copy\<close>
  returns true.
\<close>

theorem verify_copy_vacuous:
  assumes "wellformed fs"
    and "\<forall>d \<in> set (dest_dir # source_dirs). \<forall>q.
           q \<noteq> [] \<and> isfile fs (d @ q) \<longrightarrow> \<not> selected (lower_extensions extensions) (last q)"
  shows "get_files_info fs source_dirs extensions = Inr (0, 0)
       \<and> get_files_info fs [dest_dir] extensions = Inr (0, 0)
       \<and> verify_copy fs source_dirs dest_dir extensions =
           Inr (True, [Verify_header, Verify_counts 0 0, Verify_sizes 0 0, Verify_passed])"
proof -
  have "photo_files fs source_dirs (lower_extensions extensions) = []"
    and "photo_files fs [dest_dir] (lower_extensions extensions) = []"
    using assms(2) unfolding photo_files_empty_iff [OF assms(1)] by simp_all
  then show ?thesis
    by (simp add: verify_copy_def get_files_info_def)
qed


text \<open>
  An instance: a card with an empty \<open>DCIM\<close> and a text file, and a destination that
  holds only its empty subfolders.
\<close>

theorem verify_copy_vacuous_witness:
  "wellformed empty_fs
   \<and> photo_files empty_fs ([''out''] # [[''card''], [''card'', ''DCIM'']]) (lower_extensions [''.jpg'', ''.CR2'']) = []
   \<and> verify_copy empty_fs [[''card''], [''card'', ''DCIM'']] [''out''] [''.jpg'', ''.CR2''] =
           Inr (True, [Verify_header, Verify_counts 0 0, Verify_sizes 0 0, Verify_passed])"
proof -
  have w: "wellformed empty_fs"
    by code_simp
  have e: "photo_files empty_fs ([''out''] # [[''card''], [''card'', ''DCIM'']]) (lower_extensions [''.jpg'', ''.CR2'']) = []"
    by code_simp
  have n: "\<forall>d \<in> set ([''out''] # [[''card''], [''card'', ''DCIM'']]). \<forall>q.
           q \<noteq> [] \<and> isfile empty_fs (d @ q) \<longrightarrow> \<not> selected (lower_extensions [''.jpg'', ''.CR2'']) (last q)"
    using e unfolding photo_files_empty_iff [OF w] .
  show ?thesis
    using w e verify_copy_vacuous [OF w n] by simp
qed

text \<open>
  C4. On a well-formed file system, when at least one file below the directories passes
  the filter, \<open>get_earliest_photo_date\<close> reads the modification time of each such file
  and returns the least of them formatted as year, month, day; when none does it raises
  \<open>FileNotFoundError\<close>.
\<close>

theorem earliest_photo_date:
  assumes "wellformed fs"
  shows "(\<forall>p \<in> set (photo_files fs photo_dirs (lower_extensions extensions)).
            getmtime fs p = Inr (mtime_of fs p))
       \<and> get_earliest_photo_date fs photo_dirs extensions =
           (if photo_files fs photo_dirs (lower_extensions extensions) = []
            then Inl (FileNotFoundError (No_photos (lower_extensions extensions)))
            else Inr (strftime_Ymd
                   (Min (mtime_of fs ` set (photo_files fs photo_dirs (lower_extensions extensions))))))"
  using get_earliest_photo_date_eq [OF assms] photo_files_isfile [OF assms] getmtime_isfile
  by blast


text \<open>
  An instance: photos of 2024-01-05, 2024-01-02 and 2024-01-09 in two directories give
  \<open>20240102\<close>; a text file of 2023-12-31 beside them is not a photo.
\<close>

theorem earliest_photo_date_witness:
  "wellformed january_fs
   \<and> photo_files january_fs [[''DCIM'', ''100CANON''], [''DCIM'', ''101CANON'']] (lower_extensions [''.jpg''])
       = [[''DCIM'', ''100CANON'', ''IMG_1.jpg''], [''DCIM'', ''100CANON'', ''IMG_2.JPG''],
          [''DCIM'', ''101CANON'', ''IMG_3.jpg'']]
   \<and> get_earliest_photo_date january_fs [[''DCIM'', ''100CANON''], [''DCIM'', ''101CANON'']] [''.jpg'']
       = Inr (strftime_Ymd (Min (mtime_of january_fs `
            set (photo_files january_fs [[''DCIM'', ''100CANON''], [''DCIM'', ''101CANON'']]
                   (lower_extensions [''.jpg''])))))
   \<and> get_earliest_photo_date january_fs [[''DCIM'', ''100CANON''], [''DCIM'', ''101CANON'']] [''.jpg'']
       = Inr ''20240102''
   \<and> get_earliest_photo_date january_fs [[''DCIM'', ''100CANON'']] [''.png'']
       = Inl (FileNotFoundError (No_photos [''.png'']))"
proof -
  have w: "wellformed january_fs"
    by code_simp
  have f: "photo_files january_fs [[''DCIM'', ''100CANON''], [''DCIM'', ''101CANON'']] (lower_extensions [''.jpg''])
       = [[''DCIM'', ''100CANON'', ''IMG_1.jpg''], [''DCIM'', ''100CANON'', ''IMG_2.JPG''],
          [''DCIM'', ''101CANON'', ''IMG_3.jpg'']]"
    by code_simp
  have g: "get_earliest_photo_date january_fs [[''DCIM'', ''100CANON''], [''DCIM'', ''101CANON'']] [''.jpg'']
       = Inr ''20240102''"
    by code_simp
  have h: "get_earliest_photo_date january_fs [[''DCIM'', ''100CANON'']] [''.png'']
       = Inl (FileNotFoundError (No_photos [''.png'']))"
    by code_simp
  have "get_earliest_photo_date january_fs [[''DCIM'', ''100CANON''], [''DCIM'', ''101CANON'']] [''.jpg'']
       = Inr (strftime_Ymd (Min (mtime_of january_fs `
            set (photo_files january_fs [[''DCIM'', ''100CANON''], [''DCIM'', ''101CANON'']]
                   (lower_extensions [''.jpg''])))))"
    using earliest_photo_date [OF w, of "[[''DCIM'', ''100CANON''], [''DCIM'', ''101CANON'']]" "[''.jpg'']"]
    by (simp only: f) simp
  with w f g h show ?thesis
    by blast
qed

text \<open>
  C3. \<open>copy_with_progress\<close> returns false exactly when no file passes the filter.
  Otherwise it returns true whatever the copies do: wherever a file stands in the
  list, the files before it are processed, the file itself is attempted (a failure
  leaves the file system as it was and prints one error), and the files after it are
  processed from the state so reached.
\<close>

theorem copy_with_progress_result:
  "(fst (copy_with_progress fs source_dirs dest_dir extensions)
      \<longleftrightarrow> photo_files fs source_dirs (lower_extensions extensions) \<noteq> [])
   \<and> (photo_files fs source_dirs (lower_extensions extensions) = xs @ file # ys \<longrightarrow>
        (let (fs1, out1) = copy_loop fs dest_dir xs;
             (fs2, out2) = (case copy2 fs1 file dest_dir of
                              Inl e \<Rightarrow> (fs1, [Copy_error file e])
                            | Inr fs' \<Rightarrow> (fs', []));
             (fs3, out3) = copy_loop fs2 dest_dir ys
         in copy_with_progress fs source_dirs dest_dir extensions = (True, fs3, out1 @ out2 @ out3)))"
proof (intro conjI impI)
  show "fst (copy_with_progress fs source_dirs dest_dir extensions)
      \<longleftrightarrow> photo_files fs source_dirs (lower_extensions extensions) \<noteq> []"
    by (simp add: copy_with_progress_def Let_def split: prod.splits)
next
  assume a: "photo_files fs source_dirs (lower_extensions extensions) = xs @ file # ys"
  obtain fs1 out1 where l1: "copy_loop fs dest_dir xs = (fs1, out1)"
    by fastforce
  obtain fs2 out2 where l2: "(case copy2 fs1 file dest_dir of
                              Inl e \<Rightarrow> (fs1, [Copy_error file e])
                            | Inr fs' \<Rightarrow> (fs', [])) = (fs2, out2)"
    by fastforce
  obtain fs3 out3 where l3: "copy_loop fs2 dest_dir ys = (fs3, out3)"
    by fastforce
  have "copy_loop fs1 dest_dir (file # ys) = (fs3, out2 @ out3)"
    using l2 l3 by (auto split: sum.splits)
  then have "copy_loop fs dest_dir (xs @ file # ys) = (fs3, out1 @ out2 @ out3)"
    using l1 by (simp add: copy_loop_append)
  then have "copy_with_progress fs source_dirs dest_dir extensions = (True, fs3, out1 @ out2 @ out3)"
    using a by (simp add: copy_with_progress_def)
  then show "let (fs1, out1) = copy_loop fs dest_dir xs;
             (fs2, out2) = (case copy2 fs1 file dest_dir of
                              Inl e \<Rightarrow> (fs1, [Copy_error file e])
                            | Inr fs' \<Rightarrow> (fs', []));
             (fs3, out3) = copy_loop fs2 dest_dir ys
         in copy_with_progress fs source_dirs dest_dir extensions = (True, fs3, out1 @ out2 @ out3)"
    by (simp add: l1 l2 l3)
qed


text \<open>
  An instance: the destination holds a directory named \<open>b.jpg\<close>, so the second copy
  raises; the first and the third file are copied and the result is true.
\<close>

theorem copy_with_progress_result_witness:
  "photo_files copy_fs [[''card'']] (lower_extensions [''.JPG''])
     = [[''card'', ''a.jpg'']] @ [''card'', ''b.jpg''] # [[''card'', ''c.jpg'']]
   \<and> copy2 (fst (copy_loop copy_fs [''out''] [[''card'', ''a.jpg'']])) [''card'', ''b.jpg''] [''out'']
       = Inl IsADirectoryError
   \<and> copy_with_progress copy_fs [[''card'']] [''out''] [''.JPG'']
       = (True,
          Dir [(''card'', Dir [(''a.jpg'', File 1 (2024, 3, 1, 0, 0, 0, 0)),
                               (''b.jpg'', File 2 (2024, 3, 2, 0, 0, 0, 0)),
                               (''c.jpg'', File 3 (2024, 3, 3, 0, 0, 0, 0))]),
               (''out'', Dir [(''b.jpg'', Dir []),
                              (''a.jpg'', File 1 (2024, 3, 1, 0, 0, 0, 0)),
                              (''c.jpg'', File 3 (2024, 3, 3, 0, 0, 0, 0))])],
          [Copy_error [''card'', ''b.jpg''] IsADirectoryError])"
proof -
  have f: "photo_files copy_fs [[''card'']] (lower_extensions [''.JPG''])
     = [[''card'', ''a.jpg'']] @ [''card'', ''b.jpg''] # [[''card'', ''c.jpg'']]"
    by code_simp
  have l1: "copy_loop copy_fs [''out''] [[''card'', ''a.jpg'']] =
          (Dir [(''card'', Dir [(''a.jpg'', File 1 (2024, 3, 1, 0, 0, 0, 0)),
                               (''b.jpg'', File 2 (2024, 3, 2, 0, 0, 0, 0)),
                               (''c.jpg'', File 3 (2024, 3, 3, 0, 0, 0, 0))]),
               (''out'', Dir [(''b.jpg'', Dir []),
                              (''a.jpg'', File 1 (2024, 3, 1, 0, 0, 0, 0))])], [])"
    by code_simp
  have l2: "copy2 (Dir [(''card'', Dir [(''a.jpg'', File 1 (2024, 3, 1, 0, 0, 0, 0)),
                               (''b.jpg'', File 2 (2024, 3, 2, 0, 0, 0, 0)),
                               (''c.jpg'', File 3 (2024, 3, 3, 0, 0, 0, 0))]),
               (''out'', Dir [(''b.jpg'', Dir []),
                              (''a.jpg'', File 1 (2024, 3, 1, 0, 0, 0, 0))])])
              [''card'', ''b.jpg''] [''out''] = Inl IsADirectoryError"
    by code_simp
  have l3: "copy_loop (Dir [(''card'', Dir [(''a.jpg'', File 1 (2024, 3, 1, 0, 0, 0, 0)),
                               (''b.jpg'', File 2 (2024, 3, 2, 0, 0, 0, 0)),
                               (''c.jpg'', File 3 (2024, 3, 3, 0, 0, 0, 0))]),
               (''out'', Dir [(''b.jpg'', Dir []),
                              (''a.jpg'', File 1 (2024, 3, 1, 0, 0, 0, 0))])])
              [''out''] [[''card'', ''c.jpg'']] =
          (Dir [(''card'', Dir [(''a.jpg'', File 1 (2024, 3, 1, 0, 0, 0, 0)),
                               (''b.jpg'', File 2 (2024, 3, 2, 0, 0, 0, 0)),
                               (''c.jpg'', File 3 (2024, 3, 3, 0, 0, 0, 0))]),
               (''out'', Dir [(''b.jpg'', Dir []),
                              (''a.jpg'', File 1 (2024, 3, 1, 0, 0, 0, 0)),
                              (''c.jpg'', File 3 (2024, 3, 3, 0, 0, 0, 0))])], [])"
    by code_simp
  note r = copy_with_progress_result [of copy_fs "[[''card'']]" "[''out'']" "[''.JPG'']"
              "[[''card'', ''a.jpg'']]" "[''card'', ''b.jpg'']" "[[''card'', ''c.jpg'']]",
              THEN conjunct2, rule_format, OF f]
  have c: "copy_with_progress copy_fs [[''card'']] [''out''] [''.JPG'']
       = (True,
          Dir [(''card'', Dir [(''a.jpg'', File 1 (2024, 3, 1, 0, 0, 0, 0)),
                               (''b.jpg'', File 2 (2024, 3, 2, 0, 0, 0, 0)),
                               (''c.jpg'', File 3 (2024, 3, 3, 0, 0, 0, 0))]),
               (''out'', Dir [(''b.jpg'', Dir []),
                              (''a.jpg'', File 1 (2024, 3, 1, 0, 0, 0, 0)),
                              (''c.jpg'', File 3 (2024, 3, 3, 0, 0, 0, 0))])],
          [Copy_error [''card'', ''b.jpg''] IsADirectoryError])"
    using r by (simp only: l1 l2 l3 Let_def prod.case sum.case append.simps)
  have l2': "copy2 (fst (copy_loop copy_fs [''out''] [[''card'', ''a.jpg'']])) [''card'', ''b.jpg''] [''out'']
       = Inl IsADirectoryError"
    by (simp only: l1 fst_conv l2)
  show ?thesis
    using f l2' c by (intro conjI)
qed

text \<open>
  C8. \<open>setup_destination\<close> is idempotent. When a call returns, the destination and
  every subfolder are directories of the resulting file system, and a second call with
  the same arguments on that file system returns it unchanged: the directories that
  are already there are no error. Calling twice in succession is, in every case, the
  same as calling once.
\<close>

theorem setup_destination_idempotent:
  "(setup_destination fs dest_path folders = Inr fs'
      \<longrightarrow> isdir fs' dest_path \<and> (\<forall>folder \<in> set folders. isdir fs' (dest_path @ folder))
        \<and> setup_destination fs' dest_path folders = Inr fs')
   \<and> (case setup_destination fs dest_path folders of
         Inl e \<Rightarrow> Inl e
       | Inr fs1 \<Rightarrow> setup_destination fs1 dest_path folders)
       = setup_destination fs dest_path folders"
proof -
  have "setup_destination fs1 dest_path folders = Inr fs1"
    if "setup_destination fs dest_path folders = Inr fs1" for fs1
    using setup_destination_isdir [OF that] setup_destination_existing by blast
  then show ?thesis
    using setup_destination_isdir by (auto split: sum.splits)
qed

text \<open>
  An instance: below an existing \<open>selected\<close> the first call creates \<open>exported\<close>, and
  the second call changes nothing.
\<close>

theorem setup_destination_idempotent_witness:
  "setup_destination setup_fs [''home'', ''Photos'', ''20240102-canon600d-trip'']
       [[''selected''], [''selected'', ''exported'']] = Inr setup_fs_done
   \<and> setup_destination setup_fs_done [''home'', ''Photos'', ''20240102-canon600d-trip'']
       [[''selected''], [''selected'', ''exported'']] = Inr setup_fs_done"
proof -
  have first: "setup_destination setup_fs [''home'', ''Photos'', ''20240102-canon600d-trip'']
       [[''selected''], [''selected'', ''exported'']] = Inr setup_fs_done"
    by code_simp
  show ?thesis
    using first setup_destination_idempotent [THEN conjunct1, rule_format, OF first] by blast
qed

text \<open>
  C1, as the code has it. On a well-formed file system, let the destination be a
  directory that holds no file passing the filter and that lies in none of the source
  directories, and let the base names of the matching source files be pairwise
  distinct. If \<open>copy_with_progress\<close> prints no copy error, then on the resulting file
  system \<open>verify_copy\<close> finds the count and the byte total of the sources, unchanged, on
  both sides and returns true.
\<close>

theorem copy_then_verify:
  assumes wf: "wellformed fs"
    and dest: "isdir fs dest_dir"
    and fresh: "\<forall>q. q \<noteq> [] \<and> isfile fs (dest_dir @ q)
                  \<longrightarrow> \<not> selected (lower_extensions extensions) (last q)"
    and outside: "\<forall>d \<in> set source_dirs. \<not> prefix d dest_dir"
    and names: "distinct (map basename (photo_files fs source_dirs (lower_extensions extensions)))"
    and copy: "copy_with_progress fs source_dirs dest_dir extensions = (ok, fs', out)"
    and noerr: "\<forall>file e. Copy_error file e \<notin> set out"
    and info: "get_files_info fs source_dirs extensions = Inr (n, s)"
  shows "n = length (photo_files fs source_dirs (lower_extensions extensions))
       \<and> get_files_info fs' source_dirs extensions = Inr (n, s)
       \<and> get_files_info fs' [dest_dir] extensions = Inr (n, s)
       \<and> verify_copy fs' source_dirs dest_dir extensions =
           Inr (True, [Verify_header, Verify_counts n n, Verify_sizes s s, Verify_passed])"
proof -
  let ?E = "lower_extensions extensions"
  let ?files = "photo_files fs source_dirs ?E"
  let ?t = "\<lambda>f. dest_dir @ [last f]"
  have ns: "n = length ?files" "s = sum_list (map (size_of fs) ?files)"
    using info get_files_info_eq [OF wf, of source_dirs extensions] by simp_all
  have facts: "\<And>f. f \<in> set ?files \<Longrightarrow> f \<noteq> [] \<and> isfile fs f \<and> selected ?E (last f)"
    using photo_files_facts [OF wf] by blast
  have bl: "map basename ?files = map last ?files"
  proof (rule map_cong [OF refl])
    fix f assume "f \<in> set ?files"
    then show "basename f = last f"
      using facts by (simp add: basename_def)
  qed
  have d4: "distinct (map last ?files)"
    using names unfolding bl .
  have loop: "copy_loop fs dest_dir ?files = (fs', out) \<or> (?files = [] \<and> fs' = fs)"
    using copy by (auto simp: copy_with_progress_def Let_def split: if_splits prod.splits)
  have main: "(\<forall>f \<in> set ?files. kind_at fs' (?t f) = kind_at fs f)
       \<and> (\<forall>q. q \<notin> ?t ` set ?files \<longrightarrow> kind_at fs' q = kind_at fs q)
       \<and> wellformed fs'"
  proof (cases "?files = []")
    case True
    then have "fs' = fs"
      using loop by auto
    with True wf show ?thesis by simp
  next
    case False
    then have l: "copy_loop fs dest_dir ?files = (fs', out)"
      using loop by blast
    have a2: "\<forall>f \<in> set ?files. f \<noteq> [] \<and> isfile fs f"
      using facts by blast
    have a3: "\<forall>f \<in> set ?files. \<forall>g \<in> set ?files. f \<noteq> ?t g"
    proof (intro ballI notI)
      fix f g assume f: "f \<in> set ?files" and g: "g \<in> set ?files" and e: "f = ?t g"
      have "isfile fs (dest_dir @ [last g])" using facts [OF f] e by simp
      moreover have "selected ?E (last [last g])" using facts [OF g] by simp
      ultimately show False using fresh by blast
    qed
    note a4 = d4
    show ?thesis
      using copy_loop_kind_at [OF dest a2 a3 a4 l noerr] wf by blast
  qed
  then have k1: "\<And>f. f \<in> set ?files \<Longrightarrow> kind_at fs' (?t f) = kind_at fs f"
    and k2: "\<And>q. q \<notin> ?t ` set ?files \<Longrightarrow> kind_at fs' q = kind_at fs q"
    and wf': "wellformed fs'"
    by blast+
  have src: "\<forall>d \<in> set source_dirs. \<forall>q. q \<noteq> [] \<longrightarrow> kind_at fs' (d @ q) = kind_at fs (d @ q)"
  proof (intro ballI allI impI)
    fix d q assume d: "d \<in> set source_dirs" and q: "q \<noteq> ([] :: path)"
    have "d @ q \<notin> ?t ` set ?files"
    proof
      assume "d @ q \<in> ?t ` set ?files"
      then obtain g where "d @ q = dest_dir @ [last g]" by blast
      then have "prefix d dest_dir" using q by (rule append_eq_snoc_prefix)
      then show False using outside d by blast
    qed
    then show "kind_at fs' (d @ q) = kind_at fs (d @ q)" by (rule k2)
  qed
  have s1: "get_files_info fs' source_dirs extensions = Inr (n, s)"
    using get_files_info_eq [OF wf', of source_dirs extensions]
      totals_unchanged [OF wf wf' src, of ?E] ns by simp
  have c3: "\<forall>f \<in> set ?files. selected ?E (last f) \<and> isfile fs f \<and> kind_at fs' (?t f) = kind_at fs f"
    using facts k1 by blast
  have c4: "\<forall>q. q \<noteq> [] \<and> dest_dir @ q \<notin> ?t ` set ?files
            \<longrightarrow> \<not> (isfile fs' (dest_dir @ q) \<and> selected ?E (last q))"
  proof (intro allI impI)
    fix q assume q: "q \<noteq> [] \<and> dest_dir @ q \<notin> ?t ` set ?files"
    then have "isfile fs' (dest_dir @ q) = isfile fs (dest_dir @ q)"
      using isfile_cong [OF k2] by blast
    then show "\<not> (isfile fs' (dest_dir @ q) \<and> selected ?E (last q))"
      using fresh q by blast
  qed
  have s2: "get_files_info fs' [dest_dir] extensions = Inr (n, s)"
    using get_files_info_eq [OF wf', of "[dest_dir]" extensions]
      totals_of_copies [OF wf' d4 c3 c4] ns by simp
  show ?thesis
    using ns(1) s1 s2 verify_copy_cases [OF s1 s2] by simp
qed

text \<open>
  An instance: three photos in two directories of a card are copied into a destination
  that holds only its empty subfolders; both sides count 3 files and 60 bytes.
\<close>

theorem copy_then_verify_witness:
  "wellformed roundtrip_fs
   \<and> isdir roundtrip_fs [''trip'']
   \<and> photo_files roundtrip_fs [[''trip'']] (lower_extensions [''.jpg'']) = []
   \<and> map basename (photo_files roundtrip_fs
         [[''card'', ''DCIM'', ''100CANON''], [''card'', ''DCIM'', ''101CANON'']] (lower_extensions [''.jpg'']))
       = [''IMG_1.jpg'', ''IMG_2.JPG'', ''IMG_3.jpg'']
   \<and> copy_with_progress roundtrip_fs
         [[''card'', ''DCIM'', ''100CANON''], [''card'', ''DCIM'', ''101CANON'']] [''trip''] [''.jpg'']
       = (True, roundtrip_fs_copied, [])
   \<and> get_files_info roundtrip_fs
         [[''card'', ''DCIM'', ''100CANON''], [''card'', ''DCIM'', ''101CANON'']] [''.jpg''] = Inr (3, 60)
   \<and> get_files_info roundtrip_fs_copied
         [[''card'', ''DCIM'', ''100CANON''], [''card'', ''DCIM'', ''101CANON'']] [''.jpg''] = Inr (3, 60)
   \<and> get_files_info roundtrip_fs_copied [[''trip'']] [''.jpg''] = Inr (3, 60)
   \<and> verify_copy roundtrip_fs_copied
         [[''card'', ''DCIM'', ''100CANON''], [''card'', ''DCIM'', ''101CANON'']] [''trip''] [''.jpg'']
       = Inr (True, [Verify_header, Verify_counts 3 3, Verify_sizes 60 60, Verify_passed])"
proof -
  have wf: "wellformed roundtrip_fs"
    by code_simp
  have dest: "isdir roundtrip_fs [''trip'']"
    by code_simp
  have empty: "photo_files roundtrip_fs [[''trip'']] (lower_extensions [''.jpg'']) = []"
    by code_simp
  have fresh: "\<forall>q. q \<noteq> [] \<and> isfile roundtrip_fs ([''trip''] @ q)
                  \<longrightarrow> \<not> selected (lower_extensions [''.jpg'']) (last q)"
    using empty unfolding photo_files_empty_iff [OF wf] by simp
  have outside: "\<forall>d \<in> set [[''card'', ''DCIM'', ''100CANON''], [''card'', ''DCIM'', ''101CANON'']].
                   \<not> prefix d [''trip'']"
    by simp
  have bn: "map basename (photo_files roundtrip_fs
         [[''card'', ''DCIM'', ''100CANON''], [''card'', ''DCIM'', ''101CANON'']] (lower_extensions [''.jpg'']))
       = [''IMG_1.jpg'', ''IMG_2.JPG'', ''IMG_3.jpg'']"
    by code_simp
  have names: "distinct (map basename (photo_files roundtrip_fs
         [[''card'', ''DCIM'', ''100CANON''], [''card'', ''DCIM'', ''101CANON'']] (lower_extensions [''.jpg''])))"
    unfolding bn by simp
  have copy: "copy_with_progress roundtrip_fs
         [[''card'', ''DCIM'', ''100CANON''], [''card'', ''DCIM'', ''101CANON'']] [''trip''] [''.jpg'']
       = (True, roundtrip_fs_copied, [])"
    by code_simp
  have noerr: "\<forall>file e. Copy_error file e \<notin> set []"
    by simp
  have info: "get_files_info roundtrip_fs
         [[''card'', ''DCIM'', ''100CANON''], [''card'', ''DCIM'', ''101CANON'']] [''.jpg''] = Inr (3, 60)"
    by code_simp
  show ?thesis
    using wf dest empty bn copy info
      copy_then_verify [OF wf dest fresh outside names copy noerr info]
    by (intro conjI) blast+
qed

text \<open>
  C1 as stated fails when two source directories hold a file of the same name: the
  destination is flat, the second copy replaces the first without any error, and the
  destination counts one file where the sources count two.
\<close>

theorem copy_then_verify_collision:
  "wellformed collision_fs
   \<and> isdir collision_fs [''out'']
   \<and> os_walk collision_fs [''out''] = [([''out''], [], [])]
   \<and> copy_with_progress collision_fs [[''card'']] [''out''] [''.jpg''] = (True, collision_fs_copied, [])
   \<and> get_files_info collision_fs [[''card'']] [''.jpg''] = Inr (2, 30)
   \<and> get_files_info collision_fs_copied [[''card'']] [''.jpg''] = Inr (2, 30)
   \<and> get_files_info collision_fs_copied [[''out'']] [''.jpg''] = Inr (1, 20)
   \<and> verify_copy collision_fs_copied [[''card'']] [''out''] [''.jpg'']
       = Inr (False, [Verify_header, Verify_counts 2 1, Verify_sizes 30 20, Warn_count 2 1])"
  by code_simp

text \<open>
  C6. \<open>find_photo_directories\<close> joins each pattern to the mount point, expands it and
  keeps the matches that are directories; the result lists them in pattern order, and
  within a pattern in the order of the matches. It raises \<open>FileNotFoundError\<close>
  exactly when that list is empty.
\<close>

theorem find_photo_directories_result:
  "find_photo_directories glob is_directory mount_point patterns =
     (if concat (map (\<lambda>pattern. filter is_directory (glob (os_path_join mount_point pattern))) patterns) = []
      then Inl (FileNotFoundError (No_photo_directories patterns))
      else Inr (concat (map (\<lambda>pattern. filter is_directory (glob (os_path_join mount_point pattern)))
                          patterns)))"
  by (simp add: find_photo_directories_def scan_patterns_eq)

text \<open>
  C7. When nothing is stored at the path, \<open>load_config\<close> stores the default settings
  there and returns them. When the file there parses to a JSON object, it returns that
  object, its own members first and unchanged, followed by the default members whose
  key it lacks; looking a key up gives the file's value when the file has the key and
  the default's otherwise. The store is then left as it was.
\<close>

theorem load_config_result:
  "(st config_path = None \<longrightarrow>
      load_config st config_path =
        Inr (JObj DEFAULT_CONFIG, st(config_path \<mapsto> Json_file (JObj DEFAULT_CONFIG))))
   \<and> (st config_path = Some (Json_file (JObj kvs)) \<longrightarrow>
      load_config st config_path =
        Inr (JObj (kvs @ filter (\<lambda>e. fst e \<notin> fst ` set kvs) DEFAULT_CONFIG), st)
      \<and> (\<forall>key. map_of (kvs @ filter (\<lambda>e. fst e \<notin> fst ` set kvs) DEFAULT_CONFIG) key =
             (case map_of kvs key of None \<Rightarrow> map_of DEFAULT_CONFIG key | Some v \<Rightarrow> Some v)))"
proof (intro conjI impI allI)
  assume "st config_path = None"
  then show "load_config st config_path =
        Inr (JObj DEFAULT_CONFIG, st(config_path \<mapsto> Json_file (JObj DEFAULT_CONFIG)))"
    by (simp add: load_config_alt)
next
  assume "st config_path = Some (Json_file (JObj kvs))"
  then show "load_config st config_path =
        Inr (JObj (kvs @ filter (\<lambda>e. fst e \<notin> fst ` set kvs) DEFAULT_CONFIG), st)"
    by (simp add: load_config_alt fold_err_backfill [OF distinct_DEFAULT_CONFIG])
next
  fix key
  show "map_of (kvs @ filter (\<lambda>e. fst e \<notin> fst ` set kvs) DEFAULT_CONFIG) key =
             (case map_of kvs key of None \<Rightarrow> map_of DEFAULT_CONFIG key | Some v \<Rightarrow> Some v)"
  proof (cases "map_of kvs key")
    case None
    then have "key \<notin> fst ` set kvs"
      by (simp add: map_of_eq_None_iff)
    then have "map_of (filter (\<lambda>e. fst e \<notin> fst ` set kvs) DEFAULT_CONFIG) key = map_of DEFAULT_CONFIG key"
      by (rule map_of_filter_absent)
    with None show ?thesis
      by (simp add: map_add_def)
  next
    case (Some v)
    then show ?thesis
      by (simp add: map_add_def)
  qed
qed

text \<open>
  An instance of both cases: an empty store, and a settings file that has
  \<open>subfolders\<close>, \<open>photo_extensions\<close> and a key of its own.
\<close>

theorem load_config_result_witness:
  "load_config Map.empty ''config.json'' =
        Inr (JObj DEFAULT_CONFIG, [''config.json'' \<mapsto> Json_file (JObj DEFAULT_CONFIG)])
   \<and> load_config [''config.json'' \<mapsto> Json_file (JObj partial_settings)] ''config.json'' =
        Inr (JObj [(''subfolders'', JArr [JStr ''best'']),
                   (''camera'', JStr ''600D''),
                   (''photo_extensions'', JArr [JStr ''.cr2'']),
                   (''mount_patterns'', JArr [JStr ''/media/{user}/{label}'', JStr ''/run/media/{user}/{label}'']),
                   (''source_patterns'', JArr [JStr ''DCIM/*'']),
                   (''destination_template'', JStr ''{date}-canon600d-{name}'')],
             [''config.json'' \<mapsto> Json_file (JObj partial_settings)])"
proof -
  have a: "(Map.empty :: store) ''config.json'' = None"
    by simp
  have b: "[''config.json'' \<mapsto> Json_file (JObj partial_settings)] ''config.json''
             = Some (Json_file (JObj partial_settings))"
    by simp
  have c: "partial_settings @ filter (\<lambda>e. fst e \<notin> fst ` set partial_settings) DEFAULT_CONFIG
         = [(''subfolders'', JArr [JStr ''best'']),
                   (''camera'', JStr ''600D''),
                   (''photo_extensions'', JArr [JStr ''.cr2'']),
                   (''mount_patterns'', JArr [JStr ''/media/{user}/{label}'', JStr ''/run/media/{user}/{label}'']),
                   (''source_patterns'', JArr [JStr ''DCIM/*'']),
                   (''destination_template'', JStr ''{date}-canon600d-{name}'')]"
    by code_simp
  note r1 = load_config_result [of Map.empty "''config.json''", THEN conjunct1, rule_format, OF a]
  note r2 = load_config_result [of "[''config.json'' \<mapsto> Json_file (JObj partial_settings)]"
              "''config.json''" partial_settings, THEN conjunct2, rule_format, OF b, THEN conjunct1]
  show ?thesis
    using r1 r2 unfolding c by (intro conjI)
qed

text \<open>
  C5, the error's payload. With the built-in templates, user \<open>alice\<close>, label
  \<open>EOS_DIGITAL\<close> and no active mount point, the paths tried are
  \<open>/media/alice/EOS_DIGITAL\<close> and \<open>/run/media/alice/EOS_DIGITAL\<close>, but the error
  carries the templates as configured, placeholders unsubstituted.
\<close>

theorem find_mount_point_reports_templates:
  "map (\<lambda>pattern. py_format pattern [(''user'', ''alice''), (''label'', ''EOS_DIGITAL'')])
       (mount_patterns default_config)
     = [Inr ''/media/alice/EOS_DIGITAL'', Inr ''/run/media/alice/EOS_DIGITAL'']
   \<and> find_mount_point (\<lambda>mount_point. False) default_config ''EOS_DIGITAL'' ''alice''
     = Inl (FileNotFoundError
              (Disk_not_found ''EOS_DIGITAL'' [''/media/{user}/{label}'', ''/run/media/{user}/{label}'']))"
  by code_simp

end
